theory Spec2Isabelle
  imports Complex_Main
begin

section \<open>Crystal Collector: the game of \<^verbatim>\<open>assets/js/app.js\<close>\<close>

text \<open>
  The program is one JavaScript closure: three module variables (\<^verbatim>\<open>numberOfWins\<close>,
  \<^verbatim>\<open>numberOfLosses\<close>, \<^verbatim>\<open>currentScore\<close>), the function \<^verbatim>\<open>getRandomNumber\<close> and the
  object \<^verbatim>\<open>Game\<close>, whose methods read and write the page through jQuery and schedule a
  repeating timer. The model is one record holding the module variables, the mutable
  fields of \<^verbatim>\<open>Game\<close>, the page elements the methods touch, and the part of the browser
  the methods call: the clock behind \<^verbatim>\<open>Date.now()\<close>, the table of active intervals
  behind \<^verbatim>\<open>setInterval\<close> and \<^verbatim>\<open>clearInterval\<close>, and the future results of
  \<^verbatim>\<open>Math.random()\<close>. Every method is a function from state to state.

  The scores, tallies, seconds and milliseconds of the program are modelled as exact
  integers with one extra value, \<open>NaN\<close>; they stay far inside the range in which a double
  holds every integer exactly. The result of \<^verbatim>\<open>Math.random()\<close> is a double, and the
  arithmetic of \<^verbatim>\<open>getRandomNumber\<close> on it is the arithmetic of doubles: every operation
  rounds its exact result to the nearest double.
\<close>

subsection \<open>Numbers and strings of the language\<close>

datatype jsnum = Num int | NaN

text \<open>\<^verbatim>\<open>a + b\<close>, \<^verbatim>\<open>a === b\<close> and \<^verbatim>\<open>a > b\<close> on numbers: \<open>NaN\<close> is absorbing for the sum and
  makes every comparison false.\<close>

fun js_add :: "jsnum \<Rightarrow> jsnum \<Rightarrow> jsnum" where
  "js_add (Num a) (Num b) = Num (a + b)"
| "js_add _ _ = NaN"

fun js_strict_eq :: "jsnum \<Rightarrow> jsnum \<Rightarrow> bool" where
  "js_strict_eq (Num a) (Num b) = (a = b)"
| "js_strict_eq _ _ = False"

fun js_gt :: "jsnum \<Rightarrow> jsnum \<Rightarrow> bool" where
  "js_gt (Num a) (Num b) = (a > b)"
| "js_gt _ _ = False"

text \<open>\<^verbatim>\<open>a % b\<close> on integers: the remainder takes the sign of the dividend.\<close>

definition js_rem :: "int \<Rightarrow> int \<Rightarrow> int" where
  "js_rem a b = sgn a * (\<bar>a\<bar> mod \<bar>b\<bar>)"

text \<open>\<^verbatim>\<open>Math.round(x)\<close> is the integer nearest to \<open>x\<close>, a tie going up.\<close>

definition Math_round :: "real \<Rightarrow> int" where
  "Math_round x = \<lfloor>x + 1 / 2\<rfloor>"

text \<open>The decimal text of a number, as \<^verbatim>\<open>String(n)\<close>, template literals, \<^verbatim>\<open>setAttribute\<close>
  and jQuery's \<^verbatim>\<open>.text(n)\<close> produce it.\<close>

definition digitChar :: "nat \<Rightarrow> char" where
  "digitChar d = ''0123456789'' ! d"

fun digits10 :: "nat \<Rightarrow> string" where
  "digits10 n = (if n < 10 then [digitChar n] else digits10 (n div 10) @ [digitChar (n mod 10)])"

declare digits10.simps [simp del]

definition toString :: "int \<Rightarrow> string" where
  "toString n = (if n < 0 then CHR ''-'' # digits10 (nat (- n)) else digits10 (nat n))"

fun jsToString :: "jsnum \<Rightarrow> string" where
  "jsToString (Num n) = toString n"
| "jsToString NaN = ''NaN''"

text \<open>
  \<^verbatim>\<open>parseInt(x)\<close> with no radix. The argument is first converted to a string
  (\<^verbatim>\<open>undefined\<close>, the value of a missing attribute, becomes the text \<^verbatim>\<open>undefined\<close>);
  leading white space is skipped, one sign is read, a prefix \<^verbatim>\<open>0x\<close> or \<^verbatim>\<open>0X\<close> selects
  radix 16, and the longest run of digits of the radix is the value. No digit at all
  gives \<open>NaN\<close>.

  A string is the list of the bytes of its UTF-8 encoding. The white space of the
  language is TAB, LF, VT, FF, CR and SP, of one byte each, U+00A0 of two bytes, and
  U+1680, U+2000 to U+200A, U+2028, U+2029, U+202F, U+205F, U+3000 and U+FEFF of three
  bytes each. \<open>whiteSpaceLength str\<close> is the number of bytes of the white space character
  \<open>str\<close> begins with, 0 when it begins with none.
\<close>

definition whiteSpaceLength :: "string \<Rightarrow> nat" where
  "whiteSpaceLength str =
     (if take 1 str \<in> set [[CHR 0x09], [CHR 0x0A], [CHR 0x0B], [CHR 0x0C], [CHR 0x0D], [CHR 0x20]]
      then 1
      else if take 2 str = [CHR 0xC2, CHR 0xA0] then 2
      else if take 3 str \<in> set
          [[CHR 0xE1, CHR 0x9A, CHR 0x80],
           [CHR 0xE2, CHR 0x80, CHR 0x80], [CHR 0xE2, CHR 0x80, CHR 0x81],
           [CHR 0xE2, CHR 0x80, CHR 0x82], [CHR 0xE2, CHR 0x80, CHR 0x83],
           [CHR 0xE2, CHR 0x80, CHR 0x84], [CHR 0xE2, CHR 0x80, CHR 0x85],
           [CHR 0xE2, CHR 0x80, CHR 0x86], [CHR 0xE2, CHR 0x80, CHR 0x87],
           [CHR 0xE2, CHR 0x80, CHR 0x88], [CHR 0xE2, CHR 0x80, CHR 0x89],
           [CHR 0xE2, CHR 0x80, CHR 0x8A],
           [CHR 0xE2, CHR 0x80, CHR 0xA8], [CHR 0xE2, CHR 0x80, CHR 0xA9],
           [CHR 0xE2, CHR 0x80, CHR 0xAF], [CHR 0xE2, CHR 0x81, CHR 0x9F],
           [CHR 0xE3, CHR 0x80, CHR 0x80], [CHR 0xEF, CHR 0xBB, CHR 0xBF]]
      then 3
      else 0)"

function skipWhiteSpace :: "string \<Rightarrow> string" where
  "skipWhiteSpace str =
     (if whiteSpaceLength str = 0 then str else skipWhiteSpace (drop (whiteSpaceLength str) str))"
  by pat_completeness auto
termination
proof (relation "measure length")
  show "wf (measure length)" by simp
next
  fix str :: string
  assume a: "whiteSpaceLength str \<noteq> 0"
  have "str \<noteq> []"
  proof
    assume "str = []"
    then have "whiteSpaceLength str = 0" by (simp add: whiteSpaceLength_def)
    with a show False by simp
  qed
  then show "(drop (whiteSpaceLength str) str, str) \<in> measure length"
    using a by simp
qed

declare skipWhiteSpace.simps [simp del]

definition digitValue :: "char \<Rightarrow> nat option" where
  "digitValue c = map_of
     [(CHR ''0'', 0), (CHR ''1'', 1), (CHR ''2'', 2), (CHR ''3'', 3), (CHR ''4'', 4),
      (CHR ''5'', 5), (CHR ''6'', 6), (CHR ''7'', 7), (CHR ''8'', 8), (CHR ''9'', 9),
      (CHR ''a'', 10), (CHR ''b'', 11), (CHR ''c'', 12), (CHR ''d'', 13), (CHR ''e'', 14),
      (CHR ''f'', 15), (CHR ''A'', 10), (CHR ''B'', 11), (CHR ''C'', 12), (CHR ''D'', 13),
      (CHR ''E'', 14), (CHR ''F'', 15)] c"

fun radixDigits :: "nat \<Rightarrow> string \<Rightarrow> nat list" where
  "radixDigits R [] = []"
| "radixDigits R (c # cs) =
     (case digitValue c of
        None \<Rightarrow> []
      | Some d \<Rightarrow> if d < R then d # radixDigits R cs else [])"

definition radixValue :: "nat \<Rightarrow> nat list \<Rightarrow> nat" where
  "radixValue R ds = foldl (\<lambda>a d. a * R + d) 0 ds"

definition parseIntString :: "string \<Rightarrow> jsnum" where
  "parseIntString str =
    (let s1 = skipWhiteSpace str;
         sign = (if s1 \<noteq> [] \<and> hd s1 = CHR ''-'' then - 1 else (1::int));
         s2 = (if s1 \<noteq> [] \<and> (hd s1 = CHR ''-'' \<or> hd s1 = CHR ''+'') then tl s1 else s1);
         hex = (take 2 s2 = ''0x'' \<or> take 2 s2 = ''0X'');
         R = (if hex then 16 else 10);
         s3 = (if hex then drop 2 s2 else s2);
         ds = radixDigits R s3
     in if ds = [] then NaN else Num (sign * int (radixValue R ds)))"

definition parseInt :: "string option \<Rightarrow> jsnum" where
  "parseInt x = (case x of None \<Rightarrow> parseIntString ''undefined'' | Some str \<Rightarrow> parseIntString str)"

subsection \<open>Double arithmetic\<close>

text \<open>
  A double is a sign, a significand of 53 bits and a power of two, and an operation on
  doubles gives the double nearest to its exact result, of two equally near ones the
  one with the even significand. \<open>toDouble x\<close> is the double nearest to the real number
  \<open>x\<close>: with \<open>2\<^sup>e \<le> \<bar>x\<bar> < 2\<^sup>e\<^sup>+\<^sup>1\<close> (\<open>e\<close> is \<open>expo \<bar>x\<bar>\<close>) the doubles around \<open>x\<close> are the
  multiples of \<open>2\<^sup>e\<^sup>-\<^sup>5\<^sup>2\<close>, and \<open>x\<close> is rounded to the nearest multiple. The exponent is not
  bounded here, so the overflow to \<open>Infinity\<close> and the fixed spacing of the doubles next
  to zero are left out. For \<^verbatim>\<open>getRandomNumber\<close> on integers up to \<open>2\<^sup>5\<^sup>3\<close> this changes
  nothing: its numbers stay far below the overflow, and the one result that can come
  next to zero, the product of a double with an integer, is a multiple of the smallest
  double and is rounded alike. Every double \<open>x\<close> has \<open>toDouble x = x\<close>.
\<close>

definition pow2 :: "int \<Rightarrow> real" where
  "pow2 e = (if 0 \<le> e then 2 ^ nat e else 1 / 2 ^ nat (- e))"

fun bitLength :: "nat \<Rightarrow> nat" where
  "bitLength n = (if n = 0 then 0 else Suc (bitLength (n div 2)))"

declare bitLength.simps [simp del]

definition expo :: "real \<Rightarrow> int" where
  "expo x = (if 1 \<le> x then int (bitLength (nat \<lfloor>x\<rfloor>)) - 1
             else - int (bitLength (nat (\<lceil>1 / x\<rceil> - 1))))"

definition roundHalfEven :: "real \<Rightarrow> int" where
  "roundHalfEven y =
     (let f = \<lfloor>y\<rfloor>; d = y - of_int f
      in if d < 1 / 2 then f else if 1 / 2 < d then f + 1 else if even f then f else f + 1)"

definition toDouble :: "real \<Rightarrow> real" where
  "toDouble x =
     (if x = 0 then 0
      else (let u = pow2 (expo \<bar>x\<bar> - 52)
            in sgn x * of_int (roundHalfEven (\<bar>x\<bar> / u)) * u))"

text \<open>\<^verbatim>\<open>a + b\<close>, \<^verbatim>\<open>a - b\<close> and \<^verbatim>\<open>a * b\<close> on doubles.\<close>

definition addDouble :: "real \<Rightarrow> real \<Rightarrow> real" where
  "addDouble a b = toDouble (a + b)"

definition subDouble :: "real \<Rightarrow> real \<Rightarrow> real" where
  "subDouble a b = toDouble (a - b)"

definition mulDouble :: "real \<Rightarrow> real \<Rightarrow> real" where
  "mulDouble a b = toDouble (a * b)"

subsection \<open>The state\<close>

text \<open>An element of the page, as far as the program looks at it: its classes and its
  \<^verbatim>\<open>data-gem-value\<close> attribute.\<close>

record element =
  className :: string
  dataGemValue :: "string option"

text \<open>An active interval: the callback the program registers is always the arrow
  function of \<^verbatim>\<open>restartGame\<close>, whose closure holds \<^verbatim>\<open>then\<close>; the delay is the second
  argument of \<^verbatim>\<open>setInterval\<close>.\<close>

record interval =
  ivThen :: int
  ivDelay :: int

record game =
  numberOfWins :: int
  numberOfLosses :: int
  currentScore :: jsnum
  targetNumber :: int
  restartID :: nat
  uniqueGemValues :: "int list"
  elTimerMessage :: string
  elTimerMessageClass :: "string list"
  elTimerOverlayDisplay :: string
  elTimerTimeLeft :: string
  elGamesWon :: string
  elGamesLost :: string
  elTargetNumber :: string
  elTotalScore :: string
  elGemDisplay :: "element list"
  clickHandlers :: nat
  clock :: int
  timers :: "(nat \<times> interval) list"
  nextTimerID :: nat
  randoms :: "real list"

definition gems :: "string list" where
  "gems = [''emerald'', ''ruby'', ''sapphire'', ''topaz'']"

definition restartSeconds :: int where
  "restartSeconds = 5"

subsection \<open>The browser\<close>

text \<open>
  \<open>randoms\<close> holds the results the next calls of \<^verbatim>\<open>Math.random()\<close> will give. A finite
  list stands for a prefix of the unbounded sequence: a computation that asks for more
  draws than the list holds has the value \<open>None\<close>, it has not finished within the draws
  supplied.
\<close>

definition Math_random :: "game \<Rightarrow> (real \<times> game) option" where
  "Math_random s =
     (case randoms s of [] \<Rightarrow> None | r # rs \<Rightarrow> Some (r, s\<lparr>randoms := rs\<rparr>))"

text \<open>What \<^verbatim>\<open>Math.random()\<close> promises of its results: each is a double in \<open>[0, 1)\<close>.\<close>

definition validRandoms :: "game \<Rightarrow> bool" where
  "validRandoms s = list_all (\<lambda>r. toDouble r = r \<and> 0 \<le> r \<and> r < 1) (randoms s)"

definition clearInterval :: "nat \<Rightarrow> game \<Rightarrow> game" where
  "clearInterval i s = s\<lparr>timers := filter (\<lambda>t. fst t \<noteq> i) (timers s)\<rparr>"

definition setInterval :: "interval \<Rightarrow> game \<Rightarrow> nat \<times> game" where
  "setInterval iv s =
     (nextTimerID s, s\<lparr>timers := timers s @ [(nextTimerID s, iv)], nextTimerID := Suc (nextTimerID s)\<rparr>)"

subsection \<open>The program\<close>

text \<open>
  The expression \<^verbatim>\<open>Math.floor(r * ((end - start) + 1) + start)\<close> of \<^verbatim>\<open>getRandomNumber\<close>,
  for the result \<open>r\<close> of \<^verbatim>\<open>Math.random()\<close>: a difference, a sum, a product and a sum of
  doubles, in this order, and the floor of the last.
\<close>

definition randomInt :: "int \<Rightarrow> int \<Rightarrow> real \<Rightarrow> int" where
  "randomInt start end r =
     \<lfloor>addDouble (mulDouble r (addDouble (subDouble (of_int end) (of_int start)) 1)) (of_int start)\<rfloor>"

definition getRandomNumber :: "int \<Rightarrow> int \<Rightarrow> game \<Rightarrow> (int \<times> game) option" where
  "getRandomNumber start end s =
     (case Math_random s of
        None \<Rightarrow> None
      | Some (r, s') \<Rightarrow> Some (randomInt start end r, s'))"

function generateGemNumbers :: "game \<Rightarrow> game option" where
  "generateGemNumbers s =
     (if length (uniqueGemValues s) < 4 then
        (case getRandomNumber 1 12 s of
           None \<Rightarrow> None
         | Some (random, s') \<Rightarrow>
             generateGemNumbers
               (if random \<notin> set (uniqueGemValues s')
                then s'\<lparr>uniqueGemValues := uniqueGemValues s' @ [random]\<rparr>
                else s'))
      else Some s)"
  by pat_completeness auto
termination
  by (relation "measure (\<lambda>s. length (randoms s))")
     (auto simp: getRandomNumber_def Math_random_def split: list.splits)

declare generateGemNumbers.simps [simp del]

definition generateTargetNumber :: "game \<Rightarrow> (int \<times> game) option" where
  "generateTargetNumber s = getRandomNumber 19 120 s"

text \<open>The button \<^verbatim>\<open>startPlay\<close> builds for a gem: the two classes and the value as the
  attribute \<^verbatim>\<open>data-gem-value\<close>.\<close>

definition gemButton :: "string \<Rightarrow> int \<Rightarrow> element" where
  "gemButton gem v =
     \<lparr>className = ''gem-button '' @ (''gem-button__'' @ gem), dataGemValue = Some (toString v)\<rparr>"

text \<open>\<^verbatim>\<open>Array.prototype.shift\<close>: the first element, or \<^verbatim>\<open>undefined\<close> from an empty array.\<close>

definition shift :: "'a list \<Rightarrow> 'a option \<times> 'a list" where
  "shift xs = (case xs of [] \<Rightarrow> (None, []) | x # r \<Rightarrow> (Some x, r))"

text \<open>
  The loop of \<^verbatim>\<open>startPlay\<close> over \<^verbatim>\<open>this.gems\<close>. With \<^verbatim>\<open>undefined\<close> as the value, jQuery's
  \<^verbatim>\<open>.attr(name, undefined)\<close> sets nothing and returns the button, which is appended
  without the attribute.
\<close>

fun startPlayLoop :: "string list \<Rightarrow> game \<Rightarrow> game" where
  "startPlayLoop [] s = s"
| "startPlayLoop (gem # rest) s =
     (case shift (uniqueGemValues s) of
        (None, vals) \<Rightarrow>
          startPlayLoop rest
            (s\<lparr>uniqueGemValues := vals,
               elGemDisplay := elGemDisplay s
                 @ [\<lparr>className = ''gem-button '' @ (''gem-button__'' @ gem), dataGemValue = None\<rparr>]\<rparr>)
      | (Some v, vals) \<Rightarrow>
          startPlayLoop rest
            (s\<lparr>uniqueGemValues := vals, elGemDisplay := elGemDisplay s @ [gemButton gem v]\<rparr>))"

definition startPlay :: "game \<Rightarrow> game" where
  "startPlay s =
     (let s1 = startPlayLoop gems s
      in s1\<lparr>elGamesWon := toString (numberOfWins s1),
             elGamesLost := toString (numberOfLosses s1),
             elTotalScore := jsToString (currentScore s1),
             elTargetNumber := toString (targetNumber s1)\<rparr>)"

text \<open>\<^verbatim>\<open>bind\<close> registers \<^verbatim>\<open>playerClick\<close> once more as a delegated handler of clicks on
  \<^verbatim>\<open>.gem-button\<close> elements; the page then calls it once per registration.\<close>

definition bind :: "game \<Rightarrow> game" where
  "bind s = s\<lparr>clickHandlers := Suc (clickHandlers s)\<rparr>"

definition start :: "bool \<Rightarrow> game \<Rightarrow> game option" where
  "start bnd s =
     (case generateGemNumbers s of
        None \<Rightarrow> None
      | Some s1 \<Rightarrow>
          (case generateTargetNumber s1 of
             None \<Rightarrow> None
           | Some (t, s2) \<Rightarrow>
               (let s3 = startPlay (s2\<lparr>targetNumber := t\<rparr>)
                in Some (if bnd then bind s3 else s3))))"

definition resetGame :: "game \<Rightarrow> game option" where
  "resetGame s =
     start False
       (s\<lparr>elGemDisplay := [],
          uniqueGemValues := [],
          targetNumber := 0,
          currentScore := Num 0,
          elTimerMessage := [],
          elTimerOverlayDisplay := ''none'',
          elTimerTimeLeft := [],
          elTimerMessageClass :=
            filter (\<lambda>c. c \<noteq> ''game-won'' \<and> c \<noteq> ''game-lost'') (elTimerMessageClass s)\<rparr>)"

definition displayTimeLeft :: "int \<Rightarrow> bool \<Rightarrow> game \<Rightarrow> game" where
  "displayTimeLeft seconds withMinutes s =
     (let minutes = seconds div 60;
          remainderSeconds = js_rem seconds 60;
          timeLeft =
            (if withMinutes
             then toString minutes @ '':'' @ (if remainderSeconds < 10 then ''0'' else [])
                    @ toString remainderSeconds
             else toString remainderSeconds)
      in s\<lparr>elTimerTimeLeft := timeLeft\<rparr>)"

text \<open>jQuery's \<^verbatim>\<open>addClass\<close> adds a class the element does not have yet.\<close>

definition addClass :: "string \<Rightarrow> string list \<Rightarrow> string list" where
  "addClass c cs = (if c \<in> set cs then cs else cs @ [c])"

definition restartGame :: "int \<Rightarrow> game \<Rightarrow> game" where
  "restartGame seconds s =
     (let s1 = s\<lparr>elTimerOverlayDisplay := ''flex''\<rparr>;
          s2 = clearInterval (restartID s1) s1;
          now = clock s2;
          then' = now + seconds * 1000;
          s3 = displayTimeLeft seconds False s2;
          (i, s4) = setInterval \<lparr>ivThen = then', ivDelay = 1000\<rparr> s3
      in s4\<lparr>restartID := i\<rparr>)"

text \<open>The arrow function \<^verbatim>\<open>restartGame\<close> hands to \<^verbatim>\<open>setInterval\<close>; \<open>iv\<close> is its closure.\<close>

definition intervalCallback :: "interval \<Rightarrow> game \<Rightarrow> game option" where
  "intervalCallback iv s =
     (let secondsLeft = Math_round (of_int (ivThen iv - clock s) / 1000)
      in case (if secondsLeft < 0 then resetGame (clearInterval (restartID s) s) else Some s) of
           None \<Rightarrow> None
         | Some s1 \<Rightarrow> Some (displayTimeLeft secondsLeft False s1))"

definition playerClick :: "element \<Rightarrow> game \<Rightarrow> game" where
  "playerClick el s =
     (let gemValue = parseInt (dataGemValue el);
          s1 = s\<lparr>currentScore := js_add (currentScore s) gemValue\<rparr>;
          s2 = s1\<lparr>elTotalScore := jsToString (currentScore s1)\<rparr>
      in if js_strict_eq (currentScore s2) (Num (targetNumber s2)) then
           (let s3 = s2\<lparr>numberOfWins := numberOfWins s2 + 1\<rparr>;
                s4 = s3\<lparr>elGamesWon := toString (numberOfWins s3)\<rparr>;
                s5 = s4\<lparr>elTimerMessageClass := addClass ''game-won'' (elTimerMessageClass s4)\<rparr>;
                s6 = s5\<lparr>elTimerMessage := ''Awesome, You've Won!''\<rparr>
            in restartGame restartSeconds s6)
         else if js_gt (currentScore s2) (Num (targetNumber s2)) then
           (let s3 = s2\<lparr>numberOfLosses := numberOfLosses s2 + 1\<rparr>;
                s4 = s3\<lparr>elGamesLost := toString (numberOfLosses s3)\<rparr>;
                s5 = s4\<lparr>elTimerMessageClass := addClass ''game-lost'' (elTimerMessageClass s4)\<rparr>;
                s6 = s5\<lparr>elTimerMessage := ''Sorry, you lose!''\<rparr>
            in restartGame restartSeconds s6)
         else s2)"

subsection \<open>The page around the program\<close>

text \<open>The state when the script is loaded, with the clock at \<open>t\<close> and \<open>rs\<close> the coming
  results of \<^verbatim>\<open>Math.random()\<close>, and the call \<^verbatim>\<open>Game.start(true)\<close> that ends the script.
  Interval identifiers of a browser are positive, so \<^verbatim>\<open>clearInterval(0)\<close> clears nothing.\<close>

definition initialGame :: "real list \<Rightarrow> int \<Rightarrow> game" where
  "initialGame rs t =
     \<lparr>numberOfWins = 0, numberOfLosses = 0, currentScore = Num 0, targetNumber = 0,
      restartID = 0, uniqueGemValues = [], elTimerMessage = [], elTimerMessageClass = [],
      elTimerOverlayDisplay = [], elTimerTimeLeft = [], elGamesWon = [], elGamesLost = [],
      elTargetNumber = [], elTotalScore = [], elGemDisplay = [], clickHandlers = 0,
      clock = t, timers = [], nextTimerID = 1, randoms = rs\<rparr>"

definition pageLoad :: "real list \<Rightarrow> int \<Rightarrow> game option" where
  "pageLoad rs t = start True (initialGame rs t)"

text \<open>
  What the browser does to the program afterwards:
  \<^item> \<open>Click el\<close>: a click on the element \<open>el\<close>. The handlers are delegated ones of
    \<^verbatim>\<open>#gem-display\<close> for \<^verbatim>\<open>.gem-button\<close>: they run only for an element of the gem display
    (all of which are gem buttons), each registered handler calling \<^verbatim>\<open>playerClick\<close> with
    \<open>el\<close> as \<^verbatim>\<open>event.target\<close>;
  \<^item> \<open>Elapse ms\<close>: \<open>ms\<close> milliseconds pass;
  \<^item> \<open>Fire i\<close>: the callback of interval \<open>i\<close> runs, if \<open>i\<close> is still active.
\<close>

datatype event = Click element | Elapse nat | Fire nat

definition fireInterval :: "nat \<Rightarrow> game \<Rightarrow> game option" where
  "fireInterval i s =
     (case map_of (timers s) i of None \<Rightarrow> Some s | Some iv \<Rightarrow> intervalCallback iv s)"

fun step :: "event \<Rightarrow> game \<Rightarrow> game option" where
  "step (Click el) s =
     (if el \<in> set (elGemDisplay s) then Some ((playerClick el ^^ clickHandlers s) s) else Some s)"
| "step (Elapse ms) s = Some (s\<lparr>clock := clock s + int ms\<rparr>)"
| "step (Fire i) s = fireInterval i s"

fun run :: "event list \<Rightarrow> game \<Rightarrow> game option" where
  "run [] s = Some s"
| "run (e # es) s = (case step e s of None \<Rightarrow> None | Some s' \<Rightarrow> run es s')"

text \<open>The outcome of the round as the page shows it: \<^verbatim>\<open>playerClick\<close> marks the timer
  message with the class \<^verbatim>\<open>game-won\<close> or \<^verbatim>\<open>game-lost\<close>, \<^verbatim>\<open>resetGame\<close> removes both.\<close>

datatype outcome = InProgress | Won | Lost

definition outcome :: "game \<Rightarrow> outcome" where
  "outcome s =
     (if ''game-won'' \<in> set (elTimerMessageClass s) then Won
      else if ''game-lost'' \<in> set (elTimerMessageClass s) then Lost
      else InProgress)"

text \<open>\<open>k\<close> seconds of the interval \<open>i\<close>: its delay of 1000 ms passes and its callback runs,
  \<open>k\<close> times over.\<close>

definition seconds :: "nat \<Rightarrow> nat \<Rightarrow> event list" where
  "seconds i k = concat (replicate k [Elapse 1000, Fire i])"

text \<open>The active intervals are at most the one \<^verbatim>\<open>this.restartID\<close> names.\<close>

definition oneTimer :: "game \<Rightarrow> bool" where
  "oneTimer s = (length (timers s) \<le> 1 \<and> list_all (\<lambda>t. fst t = restartID s) (timers s))"





text \<open>The countdown that a call of \<^verbatim>\<open>restartGame(restartSeconds)\<close> made in the state \<open>s\<close> has
  begun in \<open>s'\<close>: the overlay shows, the interval \<^verbatim>\<open>this.restartID\<close> named before is cleared,
  the time left reads 5, and a new interval, due every 1000 ms with its deadline 5000 ms
  after the call, is registered and named by \<^verbatim>\<open>this.restartID\<close>.\<close>

definition countdownBegun :: "game \<Rightarrow> game \<Rightarrow> bool" where
  "countdownBegun s s' =
     (elTimerOverlayDisplay s' = ''flex'' \<and> elTimerTimeLeft s' = ''5'' \<and>
      restartID s' = nextTimerID s \<and>
      timers s' = filter (\<lambda>t. fst t \<noteq> restartID s) (timers s)
                    @ [(nextTimerID s, \<lparr>ivThen = clock s + 5000, ivDelay = 1000\<rparr>)])"


subsection \<open>A concrete session\<close>

text \<open>
  Sixteen results of \<^verbatim>\<open>Math.random()\<close>, enough for three rounds: they give the gems
  12, 7, 1, 2 and the target 19, then the gems 1, 2, 3, 4 (the draw 1 comes twice and is
  rejected once) and the target 70, then the gems 5, 6, 7, 8 and the target 20.
  \<open>demoGame\<close> is the state after the page has loaded at time 0.
\<close>

definition demoRandoms :: "real list" where
  "demoRandoms =
     [15 / 16, 1 / 2, 0, 1 / 8, 0,
      0, 0, 1 / 8, 3 / 16, 1 / 4, 1 / 2,
      3 / 8, 7 / 16, 1 / 2, 5 / 8, 1 / 64]"

definition demoGame :: game where
  "demoGame =
     \<lparr>numberOfWins = 0, numberOfLosses = 0, currentScore = Num 0, targetNumber = 19,
      restartID = 0, uniqueGemValues = [], elTimerMessage = [], elTimerMessageClass = [],
      elTimerOverlayDisplay = [], elTimerTimeLeft = [], elGamesWon = ''0'', elGamesLost = ''0'',
      elTargetNumber = ''19'', elTotalScore = ''0'',
      elGemDisplay = map2 gemButton gems [12, 7, 1, 2],
      clickHandlers = 1, clock = 0, timers = [], nextTimerID = 1,
      randoms = drop 5 demoRandoms\<rparr>"

text \<open>The session after a click on the emerald (12) and a click on the ruby (7): the
  score is 19, the round is won, and the countdown runs since time 0.\<close>

definition demoWon :: game where
  "demoWon = playerClick (gemButton ''ruby'' 7) (playerClick (gemButton ''emerald'' 12) demoGame)"



section \<open>Properties\<close>

subsection \<open>Numbers and strings\<close>

lemma digit_cases:
  "d < 10 \<Longrightarrow> d = 0 \<or> d = 1 \<or> d = 2 \<or> d = 3 \<or> d = 4 \<or> d = 5 \<or> d = 6 \<or> d = 7 \<or> d = 8 \<or> d = (9::nat)"
  by arith

lemma digitValue_digitChar: "d < 10 \<Longrightarrow> digitValue (digitChar d) = Some d"
  by (drule digit_cases) (auto simp: digitChar_def digitValue_def)

lemma digitChar_plain:
  "d < 10 \<Longrightarrow> whiteSpaceLength (digitChar d # cs) = 0 \<and> digitChar d \<noteq> CHR ''-'' \<and> digitChar d \<noteq> CHR ''+''
     \<and> digitChar d \<noteq> CHR ''x'' \<and> digitChar d \<noteq> CHR ''X''"
  by (drule digit_cases) (elim disjE; simp add: digitChar_def whiteSpaceLength_def)

lemma skipWhiteSpace_plain: "whiteSpaceLength str = 0 \<Longrightarrow> skipWhiteSpace str = str"
  by (simp add: skipWhiteSpace.simps)

lemma digits10_chars: "c \<in> set (digits10 n) \<Longrightarrow> \<exists>d<10. c = digitChar d"
proof (induction n rule: digits10.induct)
  case (1 n)
  show ?case
  proof (cases "n < 10")
    case True
    with "1.prems" show ?thesis by (auto simp: digits10.simps[of n])
  next
    case False
    with "1.prems" have "c \<in> set (digits10 (n div 10)) \<or> c = digitChar (n mod 10)"
      by (auto simp: digits10.simps[of n])
    then show ?thesis
    proof
      assume "c \<in> set (digits10 (n div 10))"
      with "1.IH"[OF False] show ?thesis by blast
    next
      assume "c = digitChar (n mod 10)"
      moreover have "n mod 10 < 10" by simp
      ultimately show ?thesis by blast
    qed
  qed
qed

lemma digits10_nonempty: "digits10 n \<noteq> []"
  by (subst digits10.simps) simp

lemma radixDigits_append:
  "(\<And>c. c \<in> set cs \<Longrightarrow> \<exists>d<10. c = digitChar d) \<Longrightarrow>
   radixDigits 10 (cs @ cs') = radixDigits 10 cs @ radixDigits 10 cs'"
proof (induction cs)
  case Nil
  show ?case by simp
next
  case (Cons c cs)
  from Cons.prems[of c] obtain d where d: "d < 10" "c = digitChar d" by auto
  have "radixDigits 10 (cs @ cs') = radixDigits 10 cs @ radixDigits 10 cs'"
    by (rule Cons.IH) (use Cons.prems in auto)
  then show ?case using d by (simp add: digitValue_digitChar)
qed

lemma radixDigits_digits10:
  "radixDigits 10 (digits10 n) \<noteq> [] \<and> radixValue 10 (radixDigits 10 (digits10 n)) = n"
proof (induction n rule: digits10.induct)
  case (1 n)
  show ?case
  proof (cases "n < 10")
    case True
    then show ?thesis
      by (simp add: digits10.simps[of n] digitValue_digitChar radixValue_def)
  next
    case False
    have m: "n mod 10 < 10" by simp
    have "radixDigits 10 (digits10 n) =
          radixDigits 10 (digits10 (n div 10)) @ radixDigits 10 [digitChar (n mod 10)]"
      using False by (simp add: digits10.simps[of n] radixDigits_append digits10_chars)
    then have eq: "radixDigits 10 (digits10 n) = radixDigits 10 (digits10 (n div 10)) @ [n mod 10]"
      using m by (simp add: digitValue_digitChar)
    have "radixValue 10 (radixDigits 10 (digits10 n)) =
          radixValue 10 (radixDigits 10 (digits10 (n div 10))) * 10 + n mod 10"
      unfolding eq by (simp add: radixValue_def)
    with "1.IH"[OF False] eq show ?thesis by simp
  qed
qed

lemma digits10_no_x: "CHR ''x'' \<notin> set (digits10 n)" "CHR ''X'' \<notin> set (digits10 n)"
proof -
  show "CHR ''x'' \<notin> set (digits10 n)"
  proof
    assume "CHR ''x'' \<in> set (digits10 n)"
    from digits10_chars[OF this] obtain d where "d < 10" "CHR ''x'' = digitChar d" by blast
    with digitChar_plain[of d] show False by simp
  qed
  show "CHR ''X'' \<notin> set (digits10 n)"
  proof
    assume "CHR ''X'' \<in> set (digits10 n)"
    from digits10_chars[OF this] obtain d where "d < 10" "CHR ''X'' = digitChar d" by blast
    with digitChar_plain[of d] show False by simp
  qed
qed

lemma digits10_not_hex: "take 2 (digits10 n) \<noteq> ''0x''" "take 2 (digits10 n) \<noteq> ''0X''"
proof -
  have sub: "set (take 2 (digits10 n)) \<subseteq> set (digits10 n)" by (rule set_take_subset)
  show "take 2 (digits10 n) \<noteq> ''0x''"
  proof
    assume "take 2 (digits10 n) = ''0x''"
    then have "CHR ''x'' \<in> set (take 2 (digits10 n))" by simp
    with sub digits10_no_x(1)[of n] show False by blast
  qed
  show "take 2 (digits10 n) \<noteq> ''0X''"
  proof
    assume "take 2 (digits10 n) = ''0X''"
    then have "CHR ''X'' \<in> set (take 2 (digits10 n))" by simp
    with sub digits10_no_x(2)[of n] show False by blast
  qed
qed

lemma parseIntString_digits10: "parseIntString (digits10 n) = Num (int n)"
proof -
  have ne: "digits10 n \<noteq> []" by (rule digits10_nonempty)
  then have "hd (digits10 n) \<in> set (digits10 n)" by simp
  from digits10_chars[OF this] obtain d where d: "d < 10" "hd (digits10 n) = digitChar d"
    by blast
  from ne d(2) obtain cs where cs: "digits10 n = digitChar d # cs"
    by (cases "digits10 n") auto
  have "whiteSpaceLength (digits10 n) = 0"
    unfolding cs using digitChar_plain[OF d(1), of cs] by simp
  then have ws: "skipWhiteSpace (digits10 n) = digits10 n"
    by (rule skipWhiteSpace_plain)
  have sign: "hd (digits10 n) \<noteq> CHR ''-''" "hd (digits10 n) \<noteq> CHR ''+''"
    using digitChar_plain[OF d(1), of cs] d(2) by simp_all
  show ?thesis
    using ws sign digits10_not_hex[of n] radixDigits_digits10[of n] ne
    by (simp add: parseIntString_def Let_def)
qed

lemma parseInt_toString: "parseInt (Some (toString n)) = Num n"
proof (cases "n < 0")
  case False
  then show ?thesis
    by (simp add: parseInt_def toString_def parseIntString_digits10)
next
  case True
  let ?m = "nat (- n)"
  have "whiteSpaceLength (CHR ''-'' # digits10 ?m) = 0"
    by (simp add: whiteSpaceLength_def)
  then have ws: "skipWhiteSpace (CHR ''-'' # digits10 ?m) = CHR ''-'' # digits10 ?m"
    by (rule skipWhiteSpace_plain)
  have "parseIntString (CHR ''-'' # digits10 ?m) = Num (- int ?m)"
    using digits10_not_hex[of ?m] radixDigits_digits10[of ?m] ws
    by (simp add: parseIntString_def Let_def)
  with True show ?thesis
    by (simp add: parseInt_def toString_def)
qed

lemma parseInt_gemButton: "parseInt (dataGemValue (gemButton g v)) = Num v"
  by (simp add: gemButton_def parseInt_toString)

lemma parseInt_undefined: "parseInt None = NaN"
proof -
  have "whiteSpaceLength ''undefined'' = 0"
    by (simp add: whiteSpaceLength_def)
  then have "skipWhiteSpace ''undefined'' = ''undefined''"
    by (rule skipWhiteSpace_plain)
  then show ?thesis
    by (simp add: parseInt_def parseIntString_def digitValue_def)
qed

subsection \<open>Double arithmetic\<close>

lemma pow2_powr: "pow2 e = 2 powr (of_int e)"
proof (cases "0 \<le> e")
  case True
  then have "2 powr (of_int e) = (2::real) ^ nat e"
    by (simp add: powr_realpow[symmetric])
  with True show ?thesis by (simp add: pow2_def)
next
  case False
  then have "2 powr (of_int e) = 1 / (2::real) ^ nat (- e)"
    by (simp add: powr_realpow[symmetric] powr_minus_divide[symmetric])
  with False show ?thesis by (simp add: pow2_def)
qed

lemma pow2_pos [simp]: "0 < pow2 e"
  by (simp add: pow2_powr)

lemma pow2_add: "pow2 (a + b) = pow2 a * pow2 b"
  by (simp add: pow2_powr powr_add)

lemma pow2_less_iff: "pow2 a < pow2 b \<longleftrightarrow> a < b"
  by (simp add: pow2_powr)

lemma pow2_le_iff: "pow2 a \<le> pow2 b \<longleftrightarrow> a \<le> b"
  by (simp add: pow2_powr)

lemma pow2_nat: "0 \<le> e \<Longrightarrow> pow2 e = of_int (2 ^ nat e)"
  by (simp add: pow2_def)

lemma bitLength_bounds: "0 < n \<Longrightarrow> 2 ^ (bitLength n - 1) \<le> n \<and> n < 2 ^ bitLength n"
proof (induction n rule: bitLength.induct)
  case (1 n)
  have n0: "n \<noteq> 0" using "1.prems" by simp
  have bl: "bitLength n = Suc (bitLength (n div 2))"
    using n0 by (simp add: bitLength.simps[of n])
  show ?case
  proof (cases "n div 2 = 0")
    case True
    then have "n < 2" by (simp add: div_eq_0_iff)
    with "1.prems" have n1: "n = 1" by simp
    have "bitLength n = 1"
      unfolding n1 by (simp add: bitLength.simps)
    then show ?thesis using n1 by simp
  next
    case False
    then have pos: "0 < n div 2" by simp
    from "1.IH"[OF n0 pos] have ih: "2 ^ (bitLength (n div 2) - 1) \<le> n div 2"
      "n div 2 < 2 ^ bitLength (n div 2)" by simp_all
    have "0 < bitLength (n div 2)"
      using pos by (simp add: bitLength.simps[of "n div 2"])
    then obtain k where k: "bitLength (n div 2) = Suc k"
      by (cases "bitLength (n div 2)") simp_all
    have d: "2 * (n div 2) \<le> n" "n < 2 * (n div 2) + 2"
      by simp_all
    have "2 * 2 ^ k \<le> 2 * (n div 2)" using ih(1) unfolding k by simp
    with d(1) have lo: "2 * 2 ^ k \<le> n" by linarith
    have "Suc (n div 2) \<le> 2 * 2 ^ k" using ih(2) unfolding k by simp
    then have "2 * (n div 2) + 2 \<le> 2 * (2 * 2 ^ k)" by simp
    with d(2) have hi: "n < 2 * (2 * 2 ^ k)" by linarith
    show ?thesis unfolding bl k using lo hi by simp
  qed
qed

lemma bitLength_pos: "0 < n \<Longrightarrow> 0 < bitLength n"
  by (simp add: bitLength.simps[of n])

lemma bitLength_real:
  assumes "0 < n"
  shows "(2::real) ^ (bitLength n - 1) \<le> real n" and "real n + 1 \<le> 2 ^ bitLength n"
proof -
  from bitLength_bounds[OF assms] have b: "2 ^ (bitLength n - 1) \<le> n" "Suc n \<le> 2 ^ bitLength n"
    by simp_all
  from of_nat_mono[OF b(1), where 'a = real] show "(2::real) ^ (bitLength n - 1) \<le> real n"
    by simp
  from of_nat_mono[OF b(2), where 'a = real] show "real n + 1 \<le> 2 ^ bitLength n"
    by simp
qed

lemma expo_bounds:
  assumes "0 < x"
  shows "pow2 (expo x) \<le> x" and "x < pow2 (expo x + 1)"
proof -
  have "pow2 (expo x) \<le> x \<and> x < pow2 (expo x + 1)"
  proof (cases "1 \<le> x")
    case True
    let ?n = "nat \<lfloor>x\<rfloor>"
    let ?L = "bitLength ?n"
    have fx: "1 \<le> \<lfloor>x\<rfloor>" using True by simp
    then have n: "0 < ?n" by simp
    note b = bitLength_real[OF n]
    have L: "0 < ?L" by (rule bitLength_pos[OF n])
    have e: "expo x = int ?L - 1" using True by (simp add: expo_def)
    have rn: "real ?n = of_int \<lfloor>x\<rfloor>" using fx by simp
    have "real ?n \<le> x" unfolding rn by (rule of_int_floor_le)
    with b(1) have lo: "2 ^ (?L - 1) \<le> x" by linarith
    have "x < real ?n + 1" unfolding rn by linarith
    then have hi: "x < 2 ^ ?L" using b(2) by linarith
    have nL: "nat (int ?L - 1) = ?L - 1" by simp
    have p1: "pow2 (expo x) = 2 ^ (?L - 1)"
      unfolding e pow2_def using L nL by simp
    have p2: "pow2 (expo x + 1) = 2 ^ ?L"
      unfolding e pow2_def by simp
    show ?thesis unfolding p1 p2 using lo hi by (rule conjI)
  next
    case False
    let ?N = "\<lceil>1 / x\<rceil>"
    let ?m = "nat (?N - 1)"
    let ?L = "bitLength ?m"
    have x1: "x < 1" using False by simp
    have y: "1 < 1 / x" using assms x1 by simp
    have "real_of_int 1 < of_int ?N"
      using y le_of_int_ceiling[of "1 / x"] by simp
    then have N: "2 \<le> ?N" by simp
    have m: "0 < ?m" using N by simp
    note b = bitLength_real[OF m]
    have L: "0 < ?L" by (rule bitLength_pos[OF m])
    have e: "expo x = - int ?L" using False by (simp add: expo_def)
    have "real ?m = of_int (?N - 1)"
      by (rule of_nat_nat) (use N in linarith)
    then have mN: "real ?m = of_int ?N - 1" by simp
    have "of_int ?N \<le> (2::real) ^ ?L"
      using b(2) unfolding mN by simp
    with le_of_int_ceiling[of "1 / x"] have "1 / x \<le> 2 ^ ?L" by linarith
    then have lo: "1 / 2 ^ ?L \<le> x"
      using assms by (simp add: field_simps)
    have "real ?m < 1 / x"
      unfolding mN using ceiling_correct[of "1 / x"] by simp
    with b(1) have "2 ^ (?L - 1) < 1 / x" by linarith
    then have hi: "x < 1 / 2 ^ (?L - 1)"
      using assms by (simp add: field_simps)
    have p1: "pow2 (expo x) = 1 / 2 ^ ?L"
      unfolding e pow2_def using L by simp
    have p2: "pow2 (expo x + 1) = 1 / 2 ^ (?L - 1)"
    proof (cases "?L = 1")
      case True
      then show ?thesis unfolding e pow2_def by simp
    next
      case False
      with L have "1 < ?L" by simp
      then have "nat (- (- int ?L + 1)) = ?L - 1" "\<not> 0 \<le> - int ?L + 1" by simp_all
      then show ?thesis unfolding e pow2_def by simp
    qed
    show ?thesis unfolding p1 p2 using lo hi by (rule conjI)
  qed
  then show "pow2 (expo x) \<le> x" and "x < pow2 (expo x + 1)" by simp_all
qed

lemma expo_unique:
  assumes "pow2 e \<le> x" and "x < pow2 (e + 1)"
  shows "expo x = e"
proof -
  have x: "0 < x" using assms(1) pow2_pos[of e] by linarith
  note b = expo_bounds[OF x]
  have "pow2 e < pow2 (expo x + 1)" using assms(1) b(2) by linarith
  then have 1: "e < expo x + 1" by (simp only: pow2_less_iff)
  have "pow2 (expo x) < pow2 (e + 1)" using assms(2) b(1) by linarith
  then have 2: "expo x < e + 1" by (simp only: pow2_less_iff)
  from 1 2 show ?thesis by simp
qed

lemma roundHalfEven_floor: "\<lfloor>y\<rfloor> \<le> roundHalfEven y"
  by (simp add: roundHalfEven_def Let_def)

lemma roundHalfEven_le: "y \<le> of_int B \<Longrightarrow> roundHalfEven y \<le> B"
proof -
  assume a: "y \<le> of_int B"
  have f: "\<lfloor>y\<rfloor> \<le> B" using a by (simp add: floor_le_iff)
  show ?thesis
  proof (cases "y = of_int \<lfloor>y\<rfloor>")
    case True
    then have "y - of_int \<lfloor>y\<rfloor> = 0" by simp
    then show ?thesis using f by (simp add: roundHalfEven_def Let_def)
  next
    case False
    then have "of_int \<lfloor>y\<rfloor> < y" using of_int_floor_le[of y] by linarith
    with a have "of_int \<lfloor>y\<rfloor> < (of_int B :: real)" by linarith
    then have "\<lfloor>y\<rfloor> < B" by (simp only: of_int_less_iff)
    then show ?thesis by (simp add: roundHalfEven_def Let_def)
  qed
qed

lemma roundHalfEven_ge: "of_int A \<le> y \<Longrightarrow> A \<le> roundHalfEven y"
proof -
  assume "of_int A \<le> y"
  then have "A \<le> \<lfloor>y\<rfloor>" by (simp add: le_floor_iff)
  with roundHalfEven_floor[of y] show ?thesis by linarith
qed

lemma roundHalfEven_int [simp]: "roundHalfEven (of_int M) = M"
  by (simp add: roundHalfEven_def Let_def)

lemma roundHalfEven_below: "y < of_int B + 1 / 2 \<Longrightarrow> roundHalfEven y \<le> B"
proof -
  assume a: "y < of_int B + 1 / 2"
  have "y < of_int (B + 1)" using a by simp
  then have "\<lfloor>y\<rfloor> < B + 1" by (simp only: floor_less_iff)
  then have f: "\<lfloor>y\<rfloor> \<le> B" by simp
  show ?thesis
  proof (cases "\<lfloor>y\<rfloor> = B")
    case True
    then have "y - of_int \<lfloor>y\<rfloor> < 1 / 2" using a by simp
    then show ?thesis using True by (simp add: roundHalfEven_def Let_def)
  next
    case False
    with f have "\<lfloor>y\<rfloor> < B" by simp
    then show ?thesis by (simp add: roundHalfEven_def Let_def)
  qed
qed

lemma div_of_mult: "0 < u \<Longrightarrow> b = k * u \<Longrightarrow> b / u = (k::real)"
  by simp

lemma toDouble_pos:
  "0 < x \<Longrightarrow> toDouble x =
     of_int (roundHalfEven (x / pow2 (expo x - 52))) * pow2 (expo x - 52)"
  by (simp add: toDouble_def Let_def)

lemma toDouble_zero [simp]: "toDouble 0 = 0"
  by (simp add: toDouble_def)

lemma pow2_split: "pow2 e = of_int (2 ^ 52) * pow2 (e - 52)"
proof -
  have "pow2 e = pow2 (52 + (e - 52))" by (rule arg_cong[where f = pow2]) simp
  also have "\<dots> = pow2 52 * pow2 (e - 52)" by (rule pow2_add)
  finally show ?thesis by (simp add: pow2_def)
qed

lemma pow2_split1: "pow2 (e + 1) = of_int (2 ^ 53) * pow2 (e - 52)"
proof -
  have "pow2 (e + 1) = pow2 (53 + (e - 52))" by (rule arg_cong[where f = pow2]) simp
  also have "\<dots> = pow2 53 * pow2 (e - 52)" by (rule pow2_add)
  finally show ?thesis by (simp add: pow2_def)
qed

lemma toDouble_nonneg: "0 \<le> x \<Longrightarrow> 0 \<le> toDouble x"
proof (cases "x = 0")
  case True
  then show ?thesis by simp
next
  case False
  assume "0 \<le> x"
  with False have x: "0 < x" by simp
  have "of_int 0 \<le> x / pow2 (expo x - 52)" using x by (simp add: less_imp_le)
  then have "0 \<le> roundHalfEven (x / pow2 (expo x - 52))" by (rule roundHalfEven_ge)
  then show ?thesis unfolding toDouble_pos[OF x]
    by (intro mult_nonneg_nonneg) (simp_all add: less_imp_le)
qed

text \<open>A multiple of the unit of its binade is a double.\<close>

lemma toDouble_multiple:
  assumes "pow2 e \<le> of_int K * pow2 (e - 52)" and "of_int K * pow2 (e - 52) < pow2 (e + 1)"
  shows "toDouble (of_int K * pow2 (e - 52)) = of_int K * pow2 (e - 52)"
proof -
  let ?x = "of_int K * pow2 (e - 52)"
  have x: "0 < ?x" using assms(1) pow2_pos[of e] by linarith
  have e: "expo ?x = e" by (rule expo_unique[OF assms])
  show ?thesis unfolding toDouble_pos[OF x] e by simp
qed

text \<open>Rounding does not pass a double.\<close>

lemma toDouble_upper:
  assumes "0 < x" and "x \<le> b" and "toDouble b = b"
  shows "toDouble x \<le> b"
proof -
  let ?e = "expo x"
  let ?u = "pow2 (?e - 52)"
  note xb = expo_bounds[OF assms(1)]
  have u: "0 < ?u" by simp
  show ?thesis
  proof (cases "pow2 (?e + 1) \<le> b")
    case True
    have "x / ?u < of_int (2 ^ 53)"
      using xb(2) u unfolding pow2_split1[of ?e] by (simp add: field_simps)
    then have "roundHalfEven (x / ?u) \<le> 2 ^ 53"
      by (intro roundHalfEven_le) simp
    then have "of_int (roundHalfEven (x / ?u)) * ?u \<le> of_int (2 ^ 53) * ?u"
      using u by (simp only: mult_le_cancel_right_pos of_int_le_iff)
    then have "toDouble x \<le> pow2 (?e + 1)"
      unfolding toDouble_pos[OF assms(1)] pow2_split1[of ?e] .
    with True show ?thesis by linarith
  next
    case False
    then have b1: "b < pow2 (?e + 1)" by simp
    have b0: "pow2 ?e \<le> b" using xb(1) assms(2) by linarith
    have bp: "0 < b" using assms(1,2) by linarith
    have eb: "expo b = ?e" by (rule expo_unique[OF b0 b1])
    let ?B = "roundHalfEven (b / ?u)"
    have bB: "b = of_int ?B * ?u"
      using assms(3) unfolding toDouble_pos[OF bp] eb by simp
    have "x / ?u \<le> b / ?u" using assms(2) u by (simp add: divide_right_mono less_imp_le)
    also have "b / ?u = of_int ?B" by (rule div_of_mult[OF u bB])
    finally have "roundHalfEven (x / ?u) \<le> ?B" by (rule roundHalfEven_le)
    then have "of_int (roundHalfEven (x / ?u)) * ?u \<le> of_int ?B * ?u"
      using u by (simp only: mult_le_cancel_right_pos of_int_le_iff)
    then show ?thesis
      unfolding toDouble_pos[OF assms(1)] using bB by simp
  qed
qed

lemma toDouble_lower:
  assumes "0 < a" and "a \<le> x" and "toDouble a = a"
  shows "a \<le> toDouble x"
proof -
  have xp: "0 < x" using assms(1,2) by linarith
  let ?e = "expo x"
  let ?u = "pow2 (?e - 52)"
  note xb = expo_bounds[OF xp]
  have u: "0 < ?u" by simp
  show ?thesis
  proof (cases "a < pow2 ?e")
    case True
    have "of_int (2 ^ 52) \<le> x / ?u"
      using xb(1) u unfolding pow2_split[of ?e] by (simp add: field_simps)
    then have "2 ^ 52 \<le> roundHalfEven (x / ?u)" by (rule roundHalfEven_ge)
    then have "of_int (2 ^ 52) * ?u \<le> of_int (roundHalfEven (x / ?u)) * ?u"
      using u by (simp only: mult_le_cancel_right_pos of_int_le_iff)
    then have "pow2 ?e \<le> toDouble x"
      unfolding toDouble_pos[OF xp] pow2_split[of ?e] .
    with True show ?thesis by linarith
  next
    case False
    then have a0: "pow2 ?e \<le> a" by simp
    have a1: "a < pow2 (?e + 1)" using xb(2) assms(2) by linarith
    have ea: "expo a = ?e" by (rule expo_unique[OF a0 a1])
    let ?A = "roundHalfEven (a / ?u)"
    have aA: "a = of_int ?A * ?u"
      using assms(3) unfolding toDouble_pos[OF assms(1)] ea by simp
    have "a / ?u \<le> x / ?u" using assms(2) u by (simp add: divide_right_mono less_imp_le)
    moreover have "a / ?u = of_int ?A" by (rule div_of_mult[OF u aA])
    ultimately have "of_int ?A \<le> x / ?u" by simp
    then have "?A \<le> roundHalfEven (x / ?u)" by (rule roundHalfEven_ge)
    then have "of_int ?A * ?u \<le> of_int (roundHalfEven (x / ?u)) * ?u"
      using u by (simp only: mult_le_cancel_right_pos of_int_le_iff)
    then show ?thesis
      unfolding toDouble_pos[OF xp] using aA by simp
  qed
qed

text \<open>Below the middle between two doubles, rounding goes down.\<close>

lemma toDouble_below:
  assumes "pow2 e \<le> x" and "x < pow2 (e + 1)"
    and "x < (of_int B + 1 / 2) * pow2 (e - 52)"
  shows "toDouble x \<le> of_int B * pow2 (e - 52)"
proof -
  let ?u = "pow2 (e - 52)"
  have u: "0 < ?u" by simp
  have xp: "0 < x" using assms(1) pow2_pos[of e] by linarith
  have ex: "expo x = e" by (rule expo_unique[OF assms(1,2)])
  have "x / ?u < of_int B + 1 / 2"
    using assms(3) u by (simp add: field_simps)
  then have "roundHalfEven (x / ?u) \<le> B" by (rule roundHalfEven_below)
  then have "of_int (roundHalfEven (x / ?u)) * ?u \<le> of_int B * ?u"
    using u by (simp only: mult_le_cancel_right_pos of_int_le_iff)
  then show ?thesis unfolding toDouble_pos[OF xp] ex .
qed

text \<open>Below 1 the largest double is \<open>1 - 2\<^sup>-\<^sup>5\<^sup>3\<close>.\<close>

lemma double_below_one:
  assumes "toDouble r = r" and "0 \<le> r" and "r < 1"
  shows "r \<le> 1 - pow2 (- 53)"
proof (cases "r < 1 / 2")
  case True
  have "pow2 (- 53) \<le> 1 / 2" by (simp add: pow2_def)
  with True show ?thesis by linarith
next
  case False
  then have r0: "pow2 (- 1) \<le> r" by (simp add: pow2_def)
  have r1: "r < pow2 (- 1 + 1)" using assms(3) by (simp add: pow2_def)
  have rp: "0 < r" using False by linarith
  have e: "expo r = - 1" by (rule expo_unique[OF r0 r1])
  let ?M = "roundHalfEven (r / pow2 (- 53))"
  have rM: "r = of_int ?M * pow2 (- 53)"
    using assms(1) unfolding toDouble_pos[OF rp] e by simp
  have "of_int ?M * pow2 (- 53) < of_int (2 ^ 53) * pow2 (- 53)"
    using assms(3) rM by (simp add: pow2_def)
  then have "?M < 2 ^ 53"
    by (simp only: mult_less_cancel_right_pos pow2_pos of_int_less_iff)
  then have "?M \<le> 2 ^ 53 - 1" by simp
  then have "of_int ?M * pow2 (- 53) \<le> of_int (2 ^ 53 - 1) * pow2 (- 53)"
    by (simp only: mult_le_cancel_right_pos pow2_pos of_int_le_iff)
  then show ?thesis using rM by (simp add: pow2_def)
qed

lemma toDouble_pow2: "toDouble (pow2 e) = pow2 e"
proof -
  have "toDouble (of_int (2 ^ 52) * pow2 (e - 52)) = of_int (2 ^ 52) * pow2 (e - 52)"
  proof (rule toDouble_multiple)
    show "pow2 e \<le> of_int (2 ^ 52) * pow2 (e - 52)"
      using pow2_split[of e] by simp
    have "of_int (2 ^ 52) * pow2 (e - 52) < of_int (2 ^ 53) * pow2 (e - 52)"
      by (simp only: mult_less_cancel_right_pos pow2_pos of_int_less_iff) simp
    then show "of_int (2 ^ 52) * pow2 (e - 52) < pow2 (e + 1)"
      unfolding pow2_split1[of e] .
  qed
  then show ?thesis using pow2_split[of e] by simp
qed

lemma int_as_multiple:
  "e \<le> 52 \<Longrightarrow> of_int n = of_int (n * 2 ^ nat (52 - e)) * pow2 (e - 52)"
proof -
  assume e: "e \<le> 52"
  have "pow2 (52 - e) * pow2 (e - 52) = pow2 ((52 - e) + (e - 52))"
    by (rule pow2_add[symmetric])
  also have "\<dots> = 1" by (simp add: pow2_def)
  finally have 1: "pow2 (52 - e) * pow2 (e - 52) = 1" .
  have 2: "pow2 (52 - e) = of_int (2 ^ nat (52 - e))"
    using e by (intro pow2_nat) simp
  have "of_int (n * 2 ^ nat (52 - e)) * pow2 (e - 52)
      = of_int n * (pow2 (52 - e) * pow2 (e - 52))"
    unfolding 2 by simp
  then show ?thesis unfolding 1 by simp
qed

text \<open>The integers from 0 to \<open>2\<^sup>5\<^sup>3\<close> are doubles.\<close>

lemma toDouble_int:
  assumes "0 \<le> s" and "of_int s \<le> pow2 53"
  shows "toDouble (of_int s) = of_int s"
proof (cases "s = 0")
  case True
  then show ?thesis by simp
next
  case False
  with assms(1) have sp: "0 < (of_int s :: real)" by simp
  show ?thesis
  proof (cases "of_int s = pow2 53")
    case True
    then show ?thesis by (simp only: toDouble_pow2)
  next
    case False
    with assms(2) have lt: "of_int s < pow2 53" by simp
    define k where "k = expo (of_int s)"
    note b = expo_bounds[OF sp, folded k_def]
    have "pow2 k < pow2 53" using b(1) lt by linarith
    then have "k < 53" by (simp only: pow2_less_iff)
    then have k: "k \<le> 52" by simp
    define K where "K = s * 2 ^ nat (52 - k)"
    have m: "of_int s = of_int K * pow2 (k - 52)"
      unfolding K_def by (rule int_as_multiple[OF k])
    have "toDouble (of_int K * pow2 (k - 52)) = of_int K * pow2 (k - 52)"
      by (rule toDouble_multiple) (use b in \<open>simp_all only: m[symmetric]\<close>)
    then show ?thesis unfolding m[symmetric] .
  qed
qed

lemma scaled_draw_bounds:
  assumes r: "toDouble r = r" "0 \<le> r" "r < 1"
    and e: "e \<le> 52"
    and n: "pow2 e < of_int n" and ns: "of_int n + of_int s \<le> pow2 (e + 1)" and s: "0 \<le> s"
  shows "of_int s \<le> toDouble (toDouble (r * of_int n) + of_int s)"
    and "toDouble (toDouble (r * of_int n) + of_int s) < of_int n + of_int s"
proof -
  define u where "u = pow2 (e - 52)"
  define N where "N = n * 2 ^ nat (52 - e)"
  define S where "S = s * 2 ^ nat (52 - e)"
  have u: "0 < u" unfolding u_def by simp
  have nN: "of_int n = of_int N * u" unfolding N_def u_def by (rule int_as_multiple[OF e])
  have sS: "of_int s = of_int S * u" unfolding S_def u_def by (rule int_as_multiple[OF e])
  have pe: "pow2 e = of_int (2 ^ 52) * u" unfolding u_def by (rule pow2_split)
  have pe1: "pow2 (e + 1) = of_int (2 ^ 53) * u" unfolding u_def by (rule pow2_split1)
  have np: "0 < (of_int n :: real)" using n pow2_pos[of e] by linarith
  have sr: "0 \<le> (of_int s :: real)" using s by simp
  have "of_int (2 ^ 52) * u < of_int N * u"
    using n unfolding pe nN .
  then have "2 ^ 52 < N"
    using u by (simp only: mult_less_cancel_right_pos of_int_less_iff)
  then have "2 ^ 52 \<le> N - 1" by simp
  then have "of_int (2 ^ 52) * u \<le> of_int (N - 1) * u"
    using u by (simp only: mult_le_cancel_right_pos of_int_le_iff)
  then have below: "pow2 e \<le> of_int (N - 1) * u"
    unfolding pe .
  have "of_int (N - 1) * u = of_int N * u - u"
    by (simp add: algebra_simps)
  then have pred: "of_int (N - 1) * u = of_int n - u"
    unfolding nN .
  define x where "x = r * of_int n"
  define y where "y = toDouble x"
  have x0: "0 \<le> x" unfolding x_def using r(2) np by simp
  have y0: "0 \<le> y" unfolding y_def by (rule toDouble_nonneg[OF x0])
  have xn: "x < of_int n" unfolding x_def using r(3) np by simp
  have y1: "y \<le> of_int (N - 1) * u"
  proof (cases "x < pow2 e")
    case True
    show ?thesis
    proof (cases "x = 0")
      case True
      show ?thesis unfolding y_def True toDouble_zero using below pow2_pos[of e] by linarith
    next
      case False
      with x0 have "0 < x" by linarith
      from toDouble_upper[OF this _ toDouble_pow2[of e]] True have "y \<le> pow2 e"
        unfolding y_def by simp
      with below show ?thesis by linarith
    qed
  next
    case False
    then have lo: "pow2 e \<le> x" by simp
    have hi: "x < pow2 (e + 1)" using xn ns sr by linarith
    have "r \<le> 1 - pow2 (- 53)" by (rule double_below_one[OF r])
    then have "r * of_int n \<le> (1 - pow2 (- 53)) * of_int n"
      using np by (simp only: mult_le_cancel_right_pos)
    then have 1: "x \<le> of_int n - pow2 (- 53) * of_int n"
      unfolding x_def by (simp add: algebra_simps)
    have "pow2 (- 53) * pow2 e < pow2 (- 53) * of_int n"
      using n by (simp only: mult_less_cancel_left_pos pow2_pos)
    moreover have "pow2 (- 53) * pow2 e = pow2 (- 1) * u"
    proof -
      have "pow2 (- 53) * pow2 e = pow2 (- 53 + e)" by (rule pow2_add[symmetric])
      also have "\<dots> = pow2 (- 1 + (e - 52))" by (rule arg_cong[where f = pow2]) simp
      also have "\<dots> = pow2 (- 1) * u" unfolding u_def by (rule pow2_add)
      finally show ?thesis .
    qed
    moreover have "pow2 (- 1) = 1 / 2" by (simp add: pow2_def)
    ultimately have 2: "u / 2 < pow2 (- 53) * of_int n"
      by simp
    have "x < of_int n - u / 2" using 1 2 by linarith
    also have "of_int n - u / 2 = (of_int (N - 1) + 1 / 2) * u"
    proof -
      have "(of_int (N - 1) + 1 / 2) * u = of_int (N - 1) * u + u / 2"
        by (simp add: algebra_simps)
      then show ?thesis unfolding pred by simp
    qed
    finally have "x < (of_int (N - 1) + 1 / 2) * pow2 (e - 52)"
      unfolding u_def .
    from toDouble_below[OF lo hi this] show ?thesis
      unfolding y_def u_def .
  qed
  define z where "z = y + of_int s"
  define c where "c = of_int (N + S - 1) * u"
  have "c = of_int (N - 1) * u + of_int S * u"
    unfolding c_def by (simp add: algebra_simps)
  then have cs: "c = of_int (N - 1) * u + of_int s"
    unfolding sS .
  have cn: "c = of_int n + of_int s - u"
    unfolding cs pred by simp
  have zc: "z \<le> c" unfolding cs z_def using y1 by simp
  have z0: "0 \<le> z" unfolding z_def using y0 sr by simp
  have c0: "pow2 e \<le> c" unfolding cs using below sr by linarith
  have c1: "c < pow2 (e + 1)" unfolding cn using ns u by linarith
  have dc: "toDouble c = c"
    unfolding c_def u_def
    by (rule toDouble_multiple) (use c0 c1 in \<open>simp_all only: c_def u_def\<close>)
  have "toDouble z \<le> c"
  proof (cases "z = 0")
    case True
    show ?thesis unfolding True toDouble_zero using c0 pow2_pos[of e] by linarith
  next
    case False
    with z0 have "0 < z" by linarith
    then show ?thesis using zc dc by (rule toDouble_upper)
  qed
  then have "toDouble z < of_int n + of_int s"
    unfolding cn using u by linarith
  then show "toDouble (toDouble (r * of_int n) + of_int s) < of_int n + of_int s"
    unfolding z_def y_def x_def .
  have "of_int s \<le> toDouble z"
  proof (cases "s = 0")
    case True
    then show ?thesis using toDouble_nonneg[OF z0] by simp
  next
    case False
    with s have sp: "0 < (of_int s :: real)" by simp
    have "e + 1 \<le> 53" using e by simp
    then have "pow2 (e + 1) \<le> pow2 53" by (simp only: pow2_le_iff)
    then have "of_int s \<le> pow2 53" using ns np by linarith
    then have ds: "toDouble (of_int s) = of_int s" by (rule toDouble_int[OF s])
    have "of_int s \<le> z" unfolding z_def using y0 by simp
    with sp show ?thesis using ds by (rule toDouble_lower)
  qed
  then show "of_int s \<le> toDouble (toDouble (r * of_int n) + of_int s)"
    unfolding z_def y_def x_def .
qed

lemma randomInt_range:
  assumes r: "toDouble r = r" "0 \<le> r" "r < 1"
    and a: "0 \<le> a" "a \<le> b"
    and e: "e \<le> 52" "pow2 e < of_int (b - a + 1)" "of_int (b + 1) \<le> pow2 (e + 1)"
  shows "a \<le> randomInt a b r \<and> randomInt a b r \<le> b"
proof -
  have "e + 1 \<le> 53" using e(1) by simp
  then have top: "pow2 (e + 1) \<le> pow2 53" by (simp only: pow2_le_iff)
  have d0: "0 \<le> b - a" using a by simp
  have "(of_int (b - a) :: real) \<le> of_int (b + 1)" using a by simp
  then have "of_int (b - a) \<le> pow2 53" using e(3) top by linarith
  then have 1: "toDouble (of_int b - of_int a) = of_int (b - a)"
    using toDouble_int[OF d0] by simp
  have n0: "0 \<le> b - a + 1" using a by simp
  have "(of_int (b - a + 1) :: real) \<le> of_int (b + 1)" using a by simp
  then have "of_int (b - a + 1) \<le> pow2 53" using e(3) top by linarith
  then have 2: "toDouble (of_int (b - a) + 1) = of_int (b - a + 1)"
    using toDouble_int[OF n0] by simp
  have ns: "of_int (b - a + 1) + of_int a \<le> pow2 (e + 1)"
    using e(3) by simp
  note bd = scaled_draw_bounds[OF r e(1,2) ns a(1)]
  have v: "randomInt a b r = \<lfloor>toDouble (toDouble (r * of_int (b - a + 1)) + of_int a)\<rfloor>"
    unfolding randomInt_def addDouble_def subDouble_def mulDouble_def 1 2 ..
  have "toDouble (toDouble (r * of_int (b - a + 1)) + of_int a) < of_int (b + 1)"
    using bd(2) by simp
  then have "\<lfloor>toDouble (toDouble (r * of_int (b - a + 1)) + of_int a)\<rfloor> < b + 1"
    by (simp only: floor_less_iff)
  moreover have "a \<le> \<lfloor>toDouble (toDouble (r * of_int (b - a + 1)) + of_int a)\<rfloor>"
    using bd(1) by (simp only: le_floor_iff)
  ultimately show ?thesis unfolding v by simp
qed

lemma gem_draw_range:
  assumes "toDouble r = r" "0 \<le> r" "r < 1"
  shows "1 \<le> randomInt 1 12 r \<and> randomInt 1 12 r \<le> 12"
  by (rule randomInt_range[OF assms, where e = 3]) (simp_all add: pow2_def)

lemma target_draw_range:
  assumes "toDouble r = r" "0 \<le> r" "r < 1"
  shows "19 \<le> randomInt 19 120 r \<and> randomInt 19 120 r \<le> 120"
  by (rule randomInt_range[OF assms, where e = 6]) (simp_all add: pow2_def)

lemmas double_eval =
  addDouble_def subDouble_def mulDouble_def toDouble_def expo_def pow2_def
  roundHalfEven_def bitLength.simps Let_def

subsection \<open>Random numbers\<close>

lemma getRandomNumber_Cons:
  "randoms s = r # rs \<Longrightarrow>
   getRandomNumber a b s = Some (randomInt a b r, s\<lparr>randoms := rs\<rparr>)"
  by (simp add: getRandomNumber_def Math_random_def)

lemma getRandomNumber_SomeD:
  "getRandomNumber a b s = Some (n, s') \<Longrightarrow>
   \<exists>r rs. randoms s = r # rs \<and> n = randomInt a b r \<and> s' = s\<lparr>randoms := rs\<rparr>"
  by (auto simp: getRandomNumber_def Math_random_def split: list.splits)




subsection \<open>Starting a round\<close>

lemma generateGemNumbers_result:
  "generateGemNumbers s = Some s' \<Longrightarrow> validRandoms s \<Longrightarrow>
   distinct (uniqueGemValues s) \<Longrightarrow> (\<forall>v\<in>set (uniqueGemValues s). 1 \<le> v \<and> v \<le> 12) \<Longrightarrow>
   length (uniqueGemValues s) \<le> 4 \<Longrightarrow>
   \<exists>vs rs. s' = s\<lparr>uniqueGemValues := vs, randoms := rs\<rparr> \<and>
     length vs = 4 \<and> distinct vs \<and> (\<forall>v\<in>set vs. 1 \<le> v \<and> v \<le> 12) \<and>
     list_all (\<lambda>r. toDouble r = r \<and> 0 \<le> r \<and> r < 1) rs"
proof (induction s rule: generateGemNumbers.induct)
  case (1 s)
  show ?case
  proof (cases "length (uniqueGemValues s) < 4")
    case False
    with "1.prems" have "s' = s" "length (uniqueGemValues s) = 4"
      by (simp_all add: generateGemNumbers.simps)
    with "1.prems" show ?thesis
      by (intro exI[of _ "uniqueGemValues s"] exI[of _ "randoms s"])
         (simp add: validRandoms_def)
  next
    case True
    with "1.prems"(1) obtain n s1 where g: "getRandomNumber 1 12 s = Some (n, s1)"
      by (auto simp: generateGemNumbers.simps split: option.splits)
    from getRandomNumber_SomeD[OF g] obtain r rs where
      r: "randoms s = r # rs" "n = randomInt 1 12 r" "s1 = s\<lparr>randoms := rs\<rparr>"
      by blast
    have rr: "toDouble r = r" "0 \<le> r" "r < 1" and vr: "validRandoms s1"
      using "1.prems"(2) r by (simp_all add: validRandoms_def)
    have nr: "1 \<le> n" "n \<le> 12"
      using gem_draw_range[OF rr] r(2) by simp_all
    let ?s2 = "if n \<notin> set (uniqueGemValues s1)
               then s1\<lparr>uniqueGemValues := uniqueGemValues s1 @ [n]\<rparr> else s1"
    have rec: "generateGemNumbers ?s2 = Some s'"
      using "1.prems"(1) True g by (simp add: generateGemNumbers.simps[of s])
    have p2: "validRandoms ?s2" "distinct (uniqueGemValues ?s2)"
      "\<forall>v\<in>set (uniqueGemValues ?s2). 1 \<le> v \<and> v \<le> 12" "length (uniqueGemValues ?s2) \<le> 4"
      using vr "1.prems"(3,4) True nr r(3) by (auto simp: validRandoms_def)
    from "1.IH"[OF True g refl rec p2] obtain vs rs' where
      ih: "s' = ?s2\<lparr>uniqueGemValues := vs, randoms := rs'\<rparr>" "length vs = 4" "distinct vs"
        "\<forall>v\<in>set vs. 1 \<le> v \<and> v \<le> 12" "list_all (\<lambda>r. toDouble r = r \<and> 0 \<le> r \<and> r < 1) rs'"
      by blast
    have "s' = s\<lparr>uniqueGemValues := vs, randoms := rs'\<rparr>"
      unfolding ih(1) r(3) by (cases s) simp
    with ih(2-5) show ?thesis by blast
  qed
qed

lemma generateGemNumbers_returns:
  "4 \<le> card (set (uniqueGemValues s) \<union> randomInt 1 12 ` set (randoms s)) \<Longrightarrow>
   \<exists>s'. generateGemNumbers s = Some s'"
proof (induction s rule: generateGemNumbers.induct)
  case (1 s)
  show ?case
  proof (cases "length (uniqueGemValues s) < 4")
    case False
    then show ?thesis by (simp add: generateGemNumbers.simps)
  next
    case True
    have "randoms s \<noteq> []"
    proof
      assume "randoms s = []"
      with "1.prems" have "4 \<le> card (set (uniqueGemValues s))" by simp
      also have "\<dots> \<le> length (uniqueGemValues s)" by (rule card_length)
      finally show False using True by simp
    qed
    then obtain r rs where r: "randoms s = r # rs" by (cases "randoms s") auto
    let ?n = "randomInt 1 12 r"
    let ?s1 = "s\<lparr>randoms := rs\<rparr>"
    have g: "getRandomNumber 1 12 s = Some (?n, ?s1)"
      by (rule getRandomNumber_Cons[OF r])
    let ?s2 = "if ?n \<notin> set (uniqueGemValues ?s1)
               then ?s1\<lparr>uniqueGemValues := uniqueGemValues ?s1 @ [?n]\<rparr> else ?s1"
    have eq: "set (uniqueGemValues ?s2) \<union> randomInt 1 12 ` set (randoms ?s2)
            = set (uniqueGemValues s) \<union> randomInt 1 12 ` set (randoms s)"
      using r by auto
    have ex: "\<exists>s'. generateGemNumbers ?s2 = Some s'"
      by (rule "1.IH"[OF True g refl]) (use "1.prems" eq in simp)
    have unfold: "generateGemNumbers s = generateGemNumbers ?s2"
      by (subst generateGemNumbers.simps) (simp only: True g if_True option.case prod.case)
    show ?thesis
      using ex unfolding unfold .
  qed
qed

lemma generateGemNumbers_frame:
  "generateGemNumbers s = Some s' \<Longrightarrow>
   \<exists>vs rs. s' = s\<lparr>uniqueGemValues := vs, randoms := rs\<rparr> \<and> set rs \<subseteq> set (randoms s)"
proof (induction s rule: generateGemNumbers.induct)
  case (1 s)
  show ?case
  proof (cases "length (uniqueGemValues s) < 4")
    case False
    with "1.prems" have "s' = s"
      by (simp add: generateGemNumbers.simps)
    then show ?thesis
      by (intro exI[of _ "uniqueGemValues s"] exI[of _ "randoms s"]) simp
  next
    case True
    with "1.prems"(1) obtain n s1 where g: "getRandomNumber 1 12 s = Some (n, s1)"
      by (auto simp: generateGemNumbers.simps split: option.splits)
    from getRandomNumber_SomeD[OF g] obtain r rs where
      r: "randoms s = r # rs" "s1 = s\<lparr>randoms := rs\<rparr>"
      by blast
    let ?s2 = "if n \<notin> set (uniqueGemValues s1)
               then s1\<lparr>uniqueGemValues := uniqueGemValues s1 @ [n]\<rparr> else s1"
    have rec: "generateGemNumbers ?s2 = Some s'"
      using "1.prems"(1) True g by (simp add: generateGemNumbers.simps[of s])
    from "1.IH"[OF True g refl rec] obtain vs rs' where
      ih: "s' = ?s2\<lparr>uniqueGemValues := vs, randoms := rs'\<rparr>" "set rs' \<subseteq> set (randoms ?s2)"
      by blast
    have "s' = s\<lparr>uniqueGemValues := vs, randoms := rs'\<rparr>"
      unfolding ih(1) r(2) by (cases s) simp
    moreover have "set rs' \<subseteq> set (randoms s)"
      using ih(2) r by (auto split: if_splits)
    ultimately show ?thesis by blast
  qed
qed

lemma startPlayLoop_four:
  "uniqueGemValues s = [a, b, c, d] \<Longrightarrow>
   startPlayLoop gems s =
     s\<lparr>uniqueGemValues := [],
       elGemDisplay := elGemDisplay s @ map2 gemButton gems [a, b, c, d]\<rparr>"
  by (simp add: gems_def shift_def)

lemma length_four: "length vs = 4 \<Longrightarrow> \<exists>a b c d. vs = [a, b, c, d]"
  by (auto simp: numeral_eq_Suc length_Suc_conv)

lemma start_SomeD:
  assumes "start bnd s = Some s'" "validRandoms s" "uniqueGemValues s = []"
  shows "\<exists>vs t rs. length vs = 4 \<and> distinct vs \<and> (\<forall>v\<in>set vs. 1 \<le> v \<and> v \<le> 12) \<and>
           19 \<le> t \<and> t \<le> 120 \<and> list_all (\<lambda>r. toDouble r = r \<and> 0 \<le> r \<and> r < 1) rs \<and>
           s' = s\<lparr>targetNumber := t,
                  elGemDisplay := elGemDisplay s @ map2 gemButton gems vs,
                  elGamesWon := toString (numberOfWins s),
                  elGamesLost := toString (numberOfLosses s),
                  elTotalScore := jsToString (currentScore s),
                  elTargetNumber := toString t,
                  clickHandlers := (if bnd then Suc (clickHandlers s) else clickHandlers s),
                  randoms := rs\<rparr>"
proof -
  from assms(1) obtain s1 t s2 where
    g: "generateGemNumbers s = Some s1" and
    t: "generateTargetNumber s1 = Some (t, s2)" and
    s': "s' = (if bnd then bind (startPlay (s2\<lparr>targetNumber := t\<rparr>))
               else startPlay (s2\<lparr>targetNumber := t\<rparr>))"
    by (auto simp: start_def Let_def split: option.splits)
  from generateGemNumbers_result[OF g assms(2)] assms(3) obtain vs rs1 where
    r1: "s1 = s\<lparr>uniqueGemValues := vs, randoms := rs1\<rparr>" "length vs = 4" "distinct vs"
      "\<forall>v\<in>set vs. 1 \<le> v \<and> v \<le> 12" "list_all (\<lambda>r. toDouble r = r \<and> 0 \<le> r \<and> r < 1) rs1"
    by auto
  from getRandomNumber_SomeD[OF t[unfolded generateTargetNumber_def]] obtain r rs where
    r: "randoms s1 = r # rs" "t = randomInt 19 120 r" "s2 = s1\<lparr>randoms := rs\<rparr>"
    by blast
  have rr: "toDouble r = r" "0 \<le> r" "r < 1"
    and vr: "list_all (\<lambda>r. toDouble r = r \<and> 0 \<le> r \<and> r < 1) rs"
    using r1(1,5) r(1) by simp_all
  have tr: "19 \<le> t" "t \<le> 120"
    using target_draw_range[OF rr] r(2) by simp_all
  from length_four[OF r1(2)] obtain a b c d where vs: "vs = [a, b, c, d]"
    by blast
  have s2: "s2 = s\<lparr>uniqueGemValues := [a, b, c, d], randoms := rs\<rparr>"
    using r1(1) r(3) vs by (cases s) simp
  have "s' = s\<lparr>targetNumber := t,
                  elGemDisplay := elGemDisplay s @ map2 gemButton gems [a, b, c, d],
                  elGamesWon := toString (numberOfWins s),
                  elGamesLost := toString (numberOfLosses s),
                  elTotalScore := jsToString (currentScore s),
                  elTargetNumber := toString t,
                  clickHandlers := (if bnd then Suc (clickHandlers s) else clickHandlers s),
                  randoms := rs\<rparr>"
    using assms(3) unfolding s' s2
    by (cases s) (simp add: startPlay_def startPlayLoop_four Let_def bind_def)
  with r1(2,3,4) tr vr vs show ?thesis
    by (intro exI[of _ "[a, b, c, d]"] exI[of _ t] exI[of _ rs]) simp
qed

lemma startPlayLoop_frame:
  "\<exists>vs els. startPlayLoop gs s = s\<lparr>uniqueGemValues := vs, elGemDisplay := els\<rparr>"
proof (induction gs arbitrary: s)
  case Nil
  show ?case
    by (intro exI[of _ "uniqueGemValues s"] exI[of _ "elGemDisplay s"]) simp
next
  case (Cons g gs)
  show ?case
  proof (cases "uniqueGemValues s")
    case Nil
    let ?s1 = "s\<lparr>uniqueGemValues := [],
      elGemDisplay := elGemDisplay s
        @ [\<lparr>className = ''gem-button '' @ (''gem-button__'' @ g), dataGemValue = None\<rparr>]\<rparr>"
    from Cons.IH[of ?s1] obtain vs els where
      "startPlayLoop gs ?s1 = ?s1\<lparr>uniqueGemValues := vs, elGemDisplay := els\<rparr>"
      by blast
    then show ?thesis using Nil
      by (intro exI[of _ vs] exI[of _ els]) (simp add: shift_def)
  next
    case (Cons v vs0)
    let ?s1 = "s\<lparr>uniqueGemValues := vs0, elGemDisplay := elGemDisplay s @ [gemButton g v]\<rparr>"
    from Cons.IH[of ?s1] obtain vs els where
      "startPlayLoop gs ?s1 = ?s1\<lparr>uniqueGemValues := vs, elGemDisplay := els\<rparr>"
      by blast
    then show ?thesis using Cons
      by (intro exI[of _ vs] exI[of _ els]) (simp add: shift_def)
  qed
qed

text \<open>What \<^verbatim>\<open>start\<close> leaves alone.\<close>

lemma start_frame:
  assumes "start bnd s = Some s'"
  shows "numberOfWins s' = numberOfWins s" "numberOfLosses s' = numberOfLosses s"
    "currentScore s' = currentScore s" "restartID s' = restartID s"
    "elTimerMessage s' = elTimerMessage s" "elTimerMessageClass s' = elTimerMessageClass s"
    "elTimerOverlayDisplay s' = elTimerOverlayDisplay s" "elTimerTimeLeft s' = elTimerTimeLeft s"
    "clock s' = clock s" "timers s' = timers s" "nextTimerID s' = nextTimerID s"
    "clickHandlers s' = (if bnd then Suc (clickHandlers s) else clickHandlers s)"
    "set (randoms s') \<subseteq> set (randoms s)"
proof -
  from assms obtain s1 t s2 where
    g: "generateGemNumbers s = Some s1" and
    t: "generateTargetNumber s1 = Some (t, s2)" and
    s': "s' = (if bnd then bind (startPlay (s2\<lparr>targetNumber := t\<rparr>))
               else startPlay (s2\<lparr>targetNumber := t\<rparr>))"
    by (auto simp: start_def Let_def split: option.splits)
  from generateGemNumbers_frame[OF g] obtain vs rs1 where
    s1: "s1 = s\<lparr>uniqueGemValues := vs, randoms := rs1\<rparr>" "set rs1 \<subseteq> set (randoms s)"
    by blast
  from getRandomNumber_SomeD[OF t[unfolded generateTargetNumber_def]] obtain r rs where
    r: "randoms s1 = r # rs" "s2 = s1\<lparr>randoms := rs\<rparr>"
    by blast
  obtain vs' els where
    l: "startPlayLoop gems (s2\<lparr>targetNumber := t\<rparr>) = s2\<lparr>targetNumber := t, uniqueGemValues := vs', elGemDisplay := els\<rparr>"
    using startPlayLoop_frame[of gems "s2\<lparr>targetNumber := t\<rparr>"] by blast
  have rs: "set rs \<subseteq> set (randoms s)"
    using r(1) s1 by auto
  show "numberOfWins s' = numberOfWins s" "numberOfLosses s' = numberOfLosses s"
    "currentScore s' = currentScore s" "restartID s' = restartID s"
    "elTimerMessage s' = elTimerMessage s" "elTimerMessageClass s' = elTimerMessageClass s"
    "elTimerOverlayDisplay s' = elTimerOverlayDisplay s" "elTimerTimeLeft s' = elTimerTimeLeft s"
    "clock s' = clock s" "timers s' = timers s" "nextTimerID s' = nextTimerID s"
    "clickHandlers s' = (if bnd then Suc (clickHandlers s) else clickHandlers s)"
    "set (randoms s') \<subseteq> set (randoms s)"
    using rs l by (simp_all add: s' startPlay_def Let_def bind_def r(2) s1(1))
qed

lemma validRandoms_subset:
  "validRandoms s \<Longrightarrow> set (randoms s') \<subseteq> set (randoms s) \<Longrightarrow> validRandoms s'"
  by (auto simp: validRandoms_def list_all_iff)

lemma start_target:
  assumes "start bnd s = Some s'" "validRandoms s"
  shows "19 \<le> targetNumber s' \<and> targetNumber s' \<le> 120"
proof -
  from assms obtain s1 t s2 where
    g: "generateGemNumbers s = Some s1" and
    t: "generateTargetNumber s1 = Some (t, s2)" and
    s': "s' = (if bnd then bind (startPlay (s2\<lparr>targetNumber := t\<rparr>))
               else startPlay (s2\<lparr>targetNumber := t\<rparr>))"
    by (auto simp: start_def Let_def split: option.splits)
  from generateGemNumbers_frame[OF g] obtain vs rs1 where
    s1: "s1 = s\<lparr>uniqueGemValues := vs, randoms := rs1\<rparr>" "set rs1 \<subseteq> set (randoms s)"
    by blast
  from getRandomNumber_SomeD[OF t[unfolded generateTargetNumber_def]] obtain r rs where
    r: "randoms s1 = r # rs" "t = randomInt 19 120 r" "s2 = s1\<lparr>randoms := rs\<rparr>"
    by blast
  have "r \<in> set (randoms s)" using r(1) s1 by auto
  then have rr: "toDouble r = r" "0 \<le> r" "r < 1"
    using assms(2) by (auto simp: validRandoms_def list_all_iff)
  have tr: "19 \<le> t" "t \<le> 120"
    using target_draw_range[OF rr] r(2) by simp_all
  obtain vs' els where
    l: "startPlayLoop gems (s2\<lparr>targetNumber := t\<rparr>) = s2\<lparr>targetNumber := t, uniqueGemValues := vs', elGemDisplay := els\<rparr>"
    using startPlayLoop_frame[of gems "s2\<lparr>targetNumber := t\<rparr>"] by blast
  have "targetNumber s' = t"
    using l by (simp add: s' startPlay_def Let_def bind_def)
  with tr show ?thesis by simp
qed

lemma start_returns:
  assumes "generateGemNumbers s = Some s1" "randoms s1 \<noteq> []"
  shows "\<exists>s'. start bnd s = Some s'"
proof -
  from assms(2) obtain r rs where "randoms s1 = r # rs" by (cases "randoms s1") auto
  from getRandomNumber_Cons[OF this, of 19 120] show ?thesis
    by (simp add: start_def assms(1) generateTargetNumber_def Let_def)
qed

lemma demo_valid: "validRandoms (initialGame demoRandoms 0)"
  by (simp add: validRandoms_def initialGame_def demoRandoms_def double_eval)

lemma demo_generateGemNumbers:
  "generateGemNumbers (initialGame demoRandoms 0) =
     Some ((initialGame demoRandoms 0)\<lparr>uniqueGemValues := [12, 7, 1, 2], randoms := drop 4 demoRandoms\<rparr>)"
  by (simp add: generateGemNumbers.simps getRandomNumber_def Math_random_def initialGame_def
      demoRandoms_def randomInt_def double_eval)

lemma demo_pageLoad: "pageLoad demoRandoms 0 = Some demoGame"
  unfolding pageLoad_def start_def demo_generateGemNumbers
  by (simp add: generateTargetNumber_def getRandomNumber_def Math_random_def initialGame_def
      demoRandoms_def startPlay_def startPlayLoop_four bind_def demoGame_def toString_def
      digits10.simps digitChar_def randomInt_def double_eval)

lemma gem_buttons_values:
  "length vs = 4 \<Longrightarrow> map (\<lambda>b. parseInt (dataGemValue b)) (map2 gemButton gems vs) = map Num vs"
  by (drule length_four) (auto simp: gems_def parseInt_gemButton)

lemma start_buttons:
  assumes "generateGemNumbers s = Some s'" and "length (uniqueGemValues s') = 4"
    and "start bnd s = Some s2"
  shows "elGemDisplay s2 = elGemDisplay s @ map2 gemButton gems (uniqueGemValues s')"
proof -
  from assms(1,3) obtain t s3 where
    t: "generateTargetNumber s' = Some (t, s3)" and
    s2: "s2 = (if bnd then bind (startPlay (s3\<lparr>targetNumber := t\<rparr>))
               else startPlay (s3\<lparr>targetNumber := t\<rparr>))"
    by (auto simp: start_def Let_def split: option.splits)
  from generateGemNumbers_frame[OF assms(1)] obtain vs rs where
    s': "s' = s\<lparr>uniqueGemValues := vs, randoms := rs\<rparr>"
    by blast
  from getRandomNumber_SomeD[OF t[unfolded generateTargetNumber_def]] obtain rs' where
    s3: "s3 = s'\<lparr>randoms := rs'\<rparr>"
    by blast
  from length_four[OF assms(2)] obtain a b c d where
    v: "uniqueGemValues s' = [a, b, c, d]"
    by blast
  have u: "uniqueGemValues (s3\<lparr>targetNumber := t\<rparr>) = [a, b, c, d]"
    using v s3 by simp
  have e: "elGemDisplay (s3\<lparr>targetNumber := t\<rparr>) = elGemDisplay s"
    using s3 s' by simp
  show ?thesis
    unfolding s2 v by (simp add: startPlay_def Let_def bind_def startPlayLoop_four[OF u] e)
qed

text \<open>
  C5. Started with no gem value yet (as \<^verbatim>\<open>start\<close> always calls it: the list is empty when
  the page loads, \<^verbatim>\<open>resetGame\<close> empties it, and \<^verbatim>\<open>startPlay\<close> shifts every value out) and
  with random results, doubles in \<open>[0, 1)\<close>, of which \<^verbatim>\<open>getRandomNumber(1, 12)\<close> makes at
  least four different values, \<^verbatim>\<open>generateGemNumbers\<close> returns, and what it has collected are exactly
  four pairwise distinct integers, each from 1 to 12. The round \<^verbatim>\<open>start\<close> then starts adds
  to the gem display the four buttons of these values, and \<^verbatim>\<open>parseInt\<close> reads each value
  back from its button. (If the draws never reach four different values the loop never
  ends; a round is started only when it has.)
\<close>

theorem generateGemNumbers_four_distinct:
  assumes "validRandoms s" and "uniqueGemValues s = []"
    and "4 \<le> length (remdups (map (randomInt 1 12) (randoms s)))"
  shows "\<exists>s'. generateGemNumbers s = Some s' \<and> length (uniqueGemValues s') = 4 \<and>
           distinct (uniqueGemValues s') \<and> (\<forall>v\<in>set (uniqueGemValues s'). 1 \<le> v \<and> v \<le> 12) \<and>
           (\<forall>bnd s2. start bnd s = Some s2 \<longrightarrow>
              elGemDisplay s2 = elGemDisplay s @ map2 gemButton gems (uniqueGemValues s') \<and>
              map (\<lambda>b. parseInt (dataGemValue b)) (map2 gemButton gems (uniqueGemValues s'))
                = map Num (uniqueGemValues s'))"
proof -
  have "4 \<le> card (set (uniqueGemValues s) \<union> randomInt 1 12 ` set (randoms s))"
    using assms(2,3) by (simp add: length_remdups_card_conv)
  from generateGemNumbers_returns[OF this] obtain s' where g: "generateGemNumbers s = Some s'"
    by blast
  from generateGemNumbers_result[OF g assms(1)] assms(2) obtain vs rs where
    "s' = s\<lparr>uniqueGemValues := vs, randoms := rs\<rparr>" "length vs = 4" "distinct vs"
    "\<forall>v\<in>set vs. 1 \<le> v \<and> v \<le> 12"
    by auto
  then have r: "length (uniqueGemValues s') = 4" "distinct (uniqueGemValues s')"
    "\<forall>v\<in>set (uniqueGemValues s'). 1 \<le> v \<and> v \<le> 12"
    by simp_all
  have "\<forall>bnd s2. start bnd s = Some s2 \<longrightarrow>
              elGemDisplay s2 = elGemDisplay s @ map2 gemButton gems (uniqueGemValues s') \<and>
              map (\<lambda>b. parseInt (dataGemValue b)) (map2 gemButton gems (uniqueGemValues s'))
                = map Num (uniqueGemValues s')"
    using start_buttons[OF g r(1)] gem_buttons_values[OF r(1)] by blast
  with g r show ?thesis by blast
qed

theorem generateGemNumbers_four_distinct_witness:
  "validRandoms (initialGame demoRandoms 0) \<and> uniqueGemValues (initialGame demoRandoms 0) = [] \<and>
   4 \<le> length (remdups (map (randomInt 1 12) (randoms (initialGame demoRandoms 0)))) \<and>
   (\<exists>s'. generateGemNumbers (initialGame demoRandoms 0) = Some s' \<and>
      length (uniqueGemValues s') = 4 \<and> distinct (uniqueGemValues s'))"
proof -
  have h2: "uniqueGemValues (initialGame demoRandoms 0) = []"
    by (simp add: initialGame_def)
  have h3: "4 \<le> length (remdups (map (randomInt 1 12) (randoms (initialGame demoRandoms 0))))"
    by (simp add: initialGame_def demoRandoms_def randomInt_def double_eval)
  from generateGemNumbers_four_distinct[OF demo_valid h2 h3] demo_valid h2 h3
  show ?thesis by blast
qed

text \<open>
  C6. With random results, doubles in \<open>[0, 1)\<close>, once the gem values are generated and
  \<^verbatim>\<open>Math.random()\<close> gives one more result, \<^verbatim>\<open>start\<close> returns and the target number of the
  round it has started is an integer from 19 to 120; and so is the target number of every
  round \<^verbatim>\<open>resetGame\<close> starts.
\<close>

theorem start_target_range:
  assumes "validRandoms s" and "generateGemNumbers s = Some s1" and "randoms s1 \<noteq> []"
  shows "(\<exists>s'. start bnd s = Some s' \<and> 19 \<le> targetNumber s' \<and> targetNumber s' \<le> 120) \<and>
         (\<forall>s2. resetGame s = Some s2 \<longrightarrow> 19 \<le> targetNumber s2 \<and> targetNumber s2 \<le> 120)"
proof -
  from start_returns[OF assms(2,3)] obtain s' where s': "start bnd s = Some s'"
    by blast
  have a: "\<exists>s'. start bnd s = Some s' \<and> 19 \<le> targetNumber s' \<and> targetNumber s' \<le> 120"
    using start_target[OF s' assms(1)] s' by blast
  have b: "19 \<le> targetNumber s2 \<and> targetNumber s2 \<le> 120" if "resetGame s = Some s2" for s2
    by (rule start_target[OF that[unfolded resetGame_def]])
       (use assms(1) in \<open>simp add: validRandoms_def\<close>)
  show ?thesis using a b by blast
qed

theorem start_target_range_witness:
  "validRandoms (initialGame demoRandoms 0) \<and>
   randoms ((initialGame demoRandoms 0)\<lparr>uniqueGemValues := [12, 7, 1, 2], randoms := drop 4 demoRandoms\<rparr>) \<noteq> [] \<and>
   (\<exists>s'. start True (initialGame demoRandoms 0) = Some s' \<and> 19 \<le> targetNumber s' \<and> targetNumber s' \<le> 120)"
proof -
  have h3: "randoms ((initialGame demoRandoms 0)\<lparr>uniqueGemValues := [12, 7, 1, 2], randoms := drop 4 demoRandoms\<rparr>) \<noteq> []"
    by (simp add: demoRandoms_def)
  from start_target_range[OF demo_valid demo_generateGemNumbers h3, of True] demo_valid h3
  show ?thesis by blast
qed

subsection \<open>Clicking a gem\<close>

lemma restartGame_eq:
  "restartGame n s =
     s\<lparr>elTimerOverlayDisplay := ''flex'',
       elTimerTimeLeft := toString (js_rem n 60),
       timers := filter (\<lambda>t. fst t \<noteq> restartID s) (timers s)
                   @ [(nextTimerID s, \<lparr>ivThen = clock s + n * 1000, ivDelay = 1000\<rparr>)],
       nextTimerID := Suc (nextTimerID s),
       restartID := nextTimerID s\<rparr>"
  by (cases s) (simp add: restartGame_def clearInterval_def displayTimeLeft_def setInterval_def Let_def)

lemma toString_5: "toString (js_rem restartSeconds 60) = ''5''"
  by (simp add: restartSeconds_def js_rem_def toString_def digits10.simps digitChar_def)

lemma countdownBegun_restartGame:
  "restartID s0 = restartID s \<Longrightarrow> timers s0 = timers s \<Longrightarrow> nextTimerID s0 = nextTimerID s \<Longrightarrow>
   clock s0 = clock s \<Longrightarrow> countdownBegun s (restartGame restartSeconds s0)"
  by (simp add: countdownBegun_def restartGame_eq toString_5) (simp add: restartSeconds_def)

lemma playerClick_won:
  assumes "currentScore s = Num sc" "parseInt (dataGemValue el) = Num v" "sc + v = targetNumber s"
  shows "playerClick el s =
     restartGame restartSeconds
       (s\<lparr>currentScore := Num (sc + v), elTotalScore := toString (sc + v),
          numberOfWins := numberOfWins s + 1, elGamesWon := toString (numberOfWins s + 1),
          elTimerMessageClass := addClass ''game-won'' (elTimerMessageClass s),
          elTimerMessage := ''Awesome, You've Won!''\<rparr>)"
  using assms by (simp add: playerClick_def Let_def)

lemma playerClick_lost:
  assumes "currentScore s = Num sc" "parseInt (dataGemValue el) = Num v" "sc + v > targetNumber s"
  shows "playerClick el s =
     restartGame restartSeconds
       (s\<lparr>currentScore := Num (sc + v), elTotalScore := toString (sc + v),
          numberOfLosses := numberOfLosses s + 1, elGamesLost := toString (numberOfLosses s + 1),
          elTimerMessageClass := addClass ''game-lost'' (elTimerMessageClass s),
          elTimerMessage := ''Sorry, you lose!''\<rparr>)"
  using assms by (simp add: playerClick_def Let_def)

lemma playerClick_on:
  assumes "currentScore s = Num sc" "parseInt (dataGemValue el) = Num v" "sc + v < targetNumber s"
  shows "playerClick el s = s\<lparr>currentScore := Num (sc + v), elTotalScore := toString (sc + v)\<rparr>"
  using assms by (simp add: playerClick_def Let_def)

lemma playerClick_NaN:
  assumes "currentScore s = NaN \<or> parseInt (dataGemValue el) = NaN"
  shows "playerClick el s = s\<lparr>currentScore := NaN, elTotalScore := ''NaN''\<rparr>"
proof -
  have "js_add (currentScore s) (parseInt (dataGemValue el)) = NaN"
    using assms by (cases "currentScore s"; cases "parseInt (dataGemValue el)") auto
  then show ?thesis by (simp add: playerClick_def Let_def)
qed

lemma set_addClass: "set (addClass c cs) = insert c (set cs)"
  by (auto simp: addClass_def)

lemma outcome_restartGame: "outcome (restartGame n s) = outcome s"
  by (simp add: outcome_def restartGame_eq)

lemma outcome_cong: "elTimerMessageClass s' = elTimerMessageClass s \<Longrightarrow> outcome s' = outcome s"
  by (simp add: outcome_def)

text \<open>
  C4. A click on a gem of a round in progress, the gem carrying the value \<open>v\<close> and the
  score being \<open>sc\<close>, first makes the score \<open>sc + v\<close>. Then, in this order: if the score
  equals the target the outcome becomes Won, the wins go up by one (the losses stay) and
  a countdown begins; else if the score is above the target the outcome becomes Lost, the
  losses go up by one (the wins stay) and a countdown begins; else the outcome stays
  InProgress, both tallies stay and no countdown starts (the intervals, the name
  \<^verbatim>\<open>restartID\<close> and the overlay are as before).
\<close>

theorem playerClick_transition:
  assumes "el \<in> set (elGemDisplay s)" and "parseInt (dataGemValue el) = Num v"
    and "currentScore s = Num sc" and "outcome s = InProgress"
  shows "currentScore (playerClick el s) = Num (sc + v) \<and>
    (if sc + v = targetNumber s then
       outcome (playerClick el s) = Won \<and>
       numberOfWins (playerClick el s) = numberOfWins s + 1 \<and>
       numberOfLosses (playerClick el s) = numberOfLosses s \<and>
       countdownBegun s (playerClick el s)
     else if sc + v > targetNumber s then
       outcome (playerClick el s) = Lost \<and>
       numberOfLosses (playerClick el s) = numberOfLosses s + 1 \<and>
       numberOfWins (playerClick el s) = numberOfWins s \<and>
       countdownBegun s (playerClick el s)
     else
       outcome (playerClick el s) = InProgress \<and>
       numberOfWins (playerClick el s) = numberOfWins s \<and>
       numberOfLosses (playerClick el s) = numberOfLosses s \<and>
       timers (playerClick el s) = timers s \<and> restartID (playerClick el s) = restartID s \<and>
       elTimerOverlayDisplay (playerClick el s) = elTimerOverlayDisplay s)"
proof -
  have cls: "''game-won'' \<notin> set (elTimerMessageClass s)" "''game-lost'' \<notin> set (elTimerMessageClass s)"
    using assms(4) by (auto simp: outcome_def split: if_splits)
  consider (won) "sc + v = targetNumber s" | (lost) "sc + v > targetNumber s"
    | (on) "sc + v < targetNumber s"
    by linarith
  then show ?thesis
  proof cases
    case won
    let ?s6 = "s\<lparr>currentScore := Num (sc + v), elTotalScore := toString (sc + v),
          numberOfWins := numberOfWins s + 1, elGamesWon := toString (numberOfWins s + 1),
          elTimerMessageClass := addClass ''game-won'' (elTimerMessageClass s),
          elTimerMessage := ''Awesome, You've Won!''\<rparr>"
    have pc: "playerClick el s = restartGame restartSeconds ?s6"
      by (rule playerClick_won[OF assms(3,2) won])
    have cb: "countdownBegun s (restartGame restartSeconds ?s6)"
      by (rule countdownBegun_restartGame) simp_all
    have oc: "outcome (restartGame restartSeconds ?s6) = Won"
      unfolding outcome_restartGame by (simp add: outcome_def set_addClass)
    have fs: "currentScore (restartGame restartSeconds ?s6) = Num (sc + v)"
      "numberOfWins (restartGame restartSeconds ?s6) = numberOfWins s + 1"
      "numberOfLosses (restartGame restartSeconds ?s6) = numberOfLosses s"
      by (simp_all add: restartGame_eq)
    show ?thesis
      unfolding pc using won cb oc fs by simp
  next
    case lost
    let ?s6 = "s\<lparr>currentScore := Num (sc + v), elTotalScore := toString (sc + v),
          numberOfLosses := numberOfLosses s + 1, elGamesLost := toString (numberOfLosses s + 1),
          elTimerMessageClass := addClass ''game-lost'' (elTimerMessageClass s),
          elTimerMessage := ''Sorry, you lose!''\<rparr>"
    have pc: "playerClick el s = restartGame restartSeconds ?s6"
      by (rule playerClick_lost[OF assms(3,2) lost])
    have cb: "countdownBegun s (restartGame restartSeconds ?s6)"
      by (rule countdownBegun_restartGame) simp_all
    have oc: "outcome (restartGame restartSeconds ?s6) = Lost"
      unfolding outcome_restartGame using cls by (simp add: outcome_def set_addClass)
    have fs: "currentScore (restartGame restartSeconds ?s6) = Num (sc + v)"
      "numberOfWins (restartGame restartSeconds ?s6) = numberOfWins s"
      "numberOfLosses (restartGame restartSeconds ?s6) = numberOfLosses s + 1"
      by (simp_all add: restartGame_eq)
    show ?thesis
      unfolding pc using lost cb oc fs by simp
  next
    case on
    show ?thesis
      unfolding playerClick_on[OF assms(3,2) on]
      using on cls by (simp add: outcome_def)
  qed
qed


theorem playerClick_transition_witness:
  "gemButton ''ruby'' 7 \<in> set (elGemDisplay (playerClick (gemButton ''emerald'' 12) demoGame)) \<and>
   parseInt (dataGemValue (gemButton ''ruby'' 7)) = Num 7 \<and>
   currentScore (playerClick (gemButton ''emerald'' 12) demoGame) = Num 12 \<and>
   outcome (playerClick (gemButton ''emerald'' 12) demoGame) = InProgress \<and>
   12 + 7 = targetNumber (playerClick (gemButton ''emerald'' 12) demoGame) \<and>
   outcome (playerClick (gemButton ''ruby'' 7) (playerClick (gemButton ''emerald'' 12) demoGame)) = Won \<and>
   numberOfWins (playerClick (gemButton ''ruby'' 7) (playerClick (gemButton ''emerald'' 12) demoGame)) = 1"
proof -
  have c1: "playerClick (gemButton ''emerald'' 12) demoGame
            = demoGame\<lparr>currentScore := Num 12, elTotalScore := toString 12\<rparr>"
    by (rule playerClick_on[where sc = 0 and v = 12, simplified])
       (simp_all add: demoGame_def parseInt_gemButton)
  have h1: "gemButton ''ruby'' 7 \<in> set (elGemDisplay (playerClick (gemButton ''emerald'' 12) demoGame))"
    unfolding c1 by (simp add: demoGame_def gems_def)
  have h2: "parseInt (dataGemValue (gemButton ''ruby'' 7)) = Num 7"
    by (rule parseInt_gemButton)
  have h3: "currentScore (playerClick (gemButton ''emerald'' 12) demoGame) = Num 12"
    unfolding c1 by simp
  have h4: "outcome (playerClick (gemButton ''emerald'' 12) demoGame) = InProgress"
    unfolding c1 by (simp add: outcome_def demoGame_def)
  have h5: "12 + 7 = targetNumber (playerClick (gemButton ''emerald'' 12) demoGame)"
    unfolding c1 by (simp add: demoGame_def)
  from playerClick_transition[OF h1 h2 h3 h4] h5
  have "outcome (playerClick (gemButton ''ruby'' 7) (playerClick (gemButton ''emerald'' 12) demoGame)) = Won \<and>
   numberOfWins (playerClick (gemButton ''ruby'' 7) (playerClick (gemButton ''emerald'' 12) demoGame)) = 1"
    unfolding c1 by (simp add: demoGame_def)
  with h1 h2 h3 h4 h5 show ?thesis by blast
qed

lemmas demo_click_defs =
  demoGame_def gems_def playerClick_def Let_def parseInt_gemButton restartGame_eq
  restartSeconds_def outcome_def addClass_def




subsection \<open>The countdown\<close>

lemma Math_round_ms: "Math_round (of_int d / 1000) = (d + 500) div 1000"
proof -
  have "real_of_int d / 1000 + 1 / 2 = real_of_int (d + 500) / real_of_int 1000"
    by (simp add: field_simps)
  then show ?thesis
    unfolding Math_round_def by (simp only: floor_divide_of_int_eq)
qed

lemma intervalCallback_continue:
  "0 \<le> Math_round (of_int (ivThen iv - clock s) / 1000) \<Longrightarrow>
   intervalCallback iv s =
     Some (displayTimeLeft (Math_round (of_int (ivThen iv - clock s) / 1000)) False s)"
  by (simp add: intervalCallback_def Let_def)

lemma intervalCallback_reset:
  "Math_round (of_int (ivThen iv - clock s) / 1000) < 0 \<Longrightarrow>
   intervalCallback iv s =
     map_option (displayTimeLeft (Math_round (of_int (ivThen iv - clock s) / 1000)) False)
       (resetGame (clearInterval (restartID s) s))"
  by (simp add: intervalCallback_def Let_def split: option.splits)

text \<open>What \<^verbatim>\<open>resetGame\<close> sets and what it leaves alone.\<close>

lemma resetGame_frame:
  assumes "resetGame s = Some s'"
  shows "numberOfWins s' = numberOfWins s" "numberOfLosses s' = numberOfLosses s"
    "currentScore s' = Num 0" "restartID s' = restartID s"
    "elTimerMessage s' = []" "outcome s' = InProgress"
    "elTimerOverlayDisplay s' = ''none''" "elTimerTimeLeft s' = []"
    "clock s' = clock s" "timers s' = timers s" "nextTimerID s' = nextTimerID s"
    "clickHandlers s' = clickHandlers s"
    "set (randoms s') \<subseteq> set (randoms s)"
  using start_frame[OF assms[unfolded resetGame_def]]
  by (simp_all add: outcome_def)

lemma displayTimeLeft_frame:
  "numberOfWins (displayTimeLeft n w s) = numberOfWins s"
  "numberOfLosses (displayTimeLeft n w s) = numberOfLosses s"
  "currentScore (displayTimeLeft n w s) = currentScore s"
  "restartID (displayTimeLeft n w s) = restartID s"
  "timers (displayTimeLeft n w s) = timers s"
  "nextTimerID (displayTimeLeft n w s) = nextTimerID s"
  "clickHandlers (displayTimeLeft n w s) = clickHandlers s"
  "clock (displayTimeLeft n w s) = clock s"
  "outcome (displayTimeLeft n w s) = outcome s"
  "elGemDisplay (displayTimeLeft n w s) = elGemDisplay s"
  "targetNumber (displayTimeLeft n w s) = targetNumber s"
  "elTimerTimeLeft (displayTimeLeft n False s) = toString (js_rem n 60)"
  by (simp_all add: displayTimeLeft_def Let_def outcome_def)

lemma js_rem_small: "- 60 < n \<Longrightarrow> n < 60 \<Longrightarrow> js_rem n 60 = n"
  by (cases "n < 0") (simp_all add: js_rem_def sgn_if)

lemma demo_generate_two:
  "uniqueGemValues s = [] \<Longrightarrow> randoms s = drop 5 demoRandoms \<Longrightarrow>
   generateGemNumbers s = Some (s\<lparr>uniqueGemValues := [1, 2, 3, 4], randoms := drop 10 demoRandoms\<rparr>)"
  by (cases s)
     (simp add: generateGemNumbers.simps getRandomNumber_def Math_random_def demoRandoms_def
        randomInt_def double_eval)

lemma demo_generate_three:
  "uniqueGemValues s = [] \<Longrightarrow> randoms s = drop 11 demoRandoms \<Longrightarrow>
   generateGemNumbers s = Some (s\<lparr>uniqueGemValues := [5, 6, 7, 8], randoms := drop 15 demoRandoms\<rparr>)"
  by (cases s)
     (simp add: generateGemNumbers.simps getRandomNumber_def Math_random_def demoRandoms_def
        randomInt_def double_eval)

lemma demo_resetGame_two:
  assumes "randoms s = drop 5 demoRandoms"
  shows "resetGame s =
    Some (s\<lparr>elGemDisplay := map2 gemButton gems [1, 2, 3, 4], uniqueGemValues := [],
            targetNumber := 70, currentScore := Num 0, elTimerMessage := [],
            elTimerOverlayDisplay := ''none'', elTimerTimeLeft := [],
            elTimerMessageClass :=
              filter (\<lambda>c. c \<noteq> ''game-won'' \<and> c \<noteq> ''game-lost'') (elTimerMessageClass s),
            elGamesWon := toString (numberOfWins s), elGamesLost := toString (numberOfLosses s),
            elTotalScore := toString 0, elTargetNumber := toString 70,
            randoms := drop 11 demoRandoms\<rparr>)"
proof -
  let ?r = "s\<lparr>elGemDisplay := [], uniqueGemValues := [], targetNumber := 0, currentScore := Num 0,
          elTimerMessage := [], elTimerOverlayDisplay := ''none'', elTimerTimeLeft := [],
          elTimerMessageClass :=
            filter (\<lambda>c. c \<noteq> ''game-won'' \<and> c \<noteq> ''game-lost'') (elTimerMessageClass s)\<rparr>"
  have g: "generateGemNumbers ?r = Some (?r\<lparr>uniqueGemValues := [1, 2, 3, 4], randoms := drop 10 demoRandoms\<rparr>)"
    by (rule demo_generate_two) (simp_all add: assms)
  show ?thesis
    unfolding resetGame_def start_def g
    by (cases s)
       (simp add: generateTargetNumber_def getRandomNumber_def Math_random_def demoRandoms_def
          startPlay_def startPlayLoop_four randomInt_def double_eval)
qed

lemma demo_resetGame_three:
  assumes "randoms s = drop 11 demoRandoms"
  shows "resetGame s =
    Some (s\<lparr>elGemDisplay := map2 gemButton gems [5, 6, 7, 8], uniqueGemValues := [],
            targetNumber := 20, currentScore := Num 0, elTimerMessage := [],
            elTimerOverlayDisplay := ''none'', elTimerTimeLeft := [],
            elTimerMessageClass :=
              filter (\<lambda>c. c \<noteq> ''game-won'' \<and> c \<noteq> ''game-lost'') (elTimerMessageClass s),
            elGamesWon := toString (numberOfWins s), elGamesLost := toString (numberOfLosses s),
            elTotalScore := toString 0, elTargetNumber := toString 20,
            randoms := []\<rparr>)"
proof -
  let ?r = "s\<lparr>elGemDisplay := [], uniqueGemValues := [], targetNumber := 0, currentScore := Num 0,
          elTimerMessage := [], elTimerOverlayDisplay := ''none'', elTimerTimeLeft := [],
          elTimerMessageClass :=
            filter (\<lambda>c. c \<noteq> ''game-won'' \<and> c \<noteq> ''game-lost'') (elTimerMessageClass s)\<rparr>"
  have g: "generateGemNumbers ?r = Some (?r\<lparr>uniqueGemValues := [5, 6, 7, 8], randoms := drop 15 demoRandoms\<rparr>)"
    by (rule demo_generate_three) (simp_all add: assms)
  show ?thesis
    unfolding resetGame_def start_def g
    by (cases s)
       (simp add: generateTargetNumber_def getRandomNumber_def Math_random_def demoRandoms_def
          startPlay_def startPlayLoop_four randomInt_def double_eval)
qed

lemma demoWon_eq:
  "demoWon = demoGame\<lparr>currentScore := Num 19, elTotalScore := toString 19,
       numberOfWins := 1, elGamesWon := toString 1,
       elTimerMessageClass := [''game-won''], elTimerMessage := ''Awesome, You've Won!'',
       elTimerOverlayDisplay := ''flex'', elTimerTimeLeft := ''5'',
       timers := [(1, \<lparr>ivThen = 5000, ivDelay = 1000\<rparr>)], nextTimerID := 2, restartID := 1\<rparr>"
  by (simp add: demoWon_def demo_click_defs toString_5[unfolded restartSeconds_def])

text \<open>
  C10. When the callback of the interval computes a number of seconds left \<open>n\<close> below
  zero and the new round starts (\<^verbatim>\<open>resetGame\<close>, after the interval is cleared, returns
  \<open>s1\<close>), the callback still calls \<^verbatim>\<open>displayTimeLeft\<close> with \<open>n\<close> on the state of the new
  round: the new round has begun (score 0, no outcome, overlay hidden, time left
  emptied by \<^verbatim>\<open>resetGame\<close>), and after it the time left reads \<open>n % 60\<close>, which is the
  negative \<open>n\<close> itself, with its minus sign, for \<open>n\<close> above \<open>-60\<close>.
\<close>

theorem negative_tick_after_reset:
  assumes "Math_round (of_int (ivThen iv - clock s) / 1000) = n" and "n < 0"
    and "resetGame (clearInterval (restartID s) s) = Some s1"
  shows "intervalCallback iv s = Some (displayTimeLeft n False s1) \<and>
         currentScore s1 = Num 0 \<and> outcome s1 = InProgress \<and>
         elTimerOverlayDisplay s1 = ''none'' \<and> elTimerTimeLeft s1 = [] \<and>
         elTimerTimeLeft (displayTimeLeft n False s1) = toString (js_rem n 60) \<and>
         (- 60 < n \<longrightarrow>
            elTimerTimeLeft (displayTimeLeft n False s1) = CHR ''-'' # digits10 (nat (- n)))"
proof -
  have cb: "intervalCallback iv s = Some (displayTimeLeft n False s1)"
    using intervalCallback_reset[of iv s] assms by simp
  have neg: "- 60 < n \<Longrightarrow> toString (js_rem n 60) = CHR ''-'' # digits10 (nat (- n))"
    using assms(2) by (simp add: js_rem_small toString_def)
  show ?thesis
    using cb resetGame_frame(3,6,7,8)[OF assms(3)] neg
    by (simp add: displayTimeLeft_frame(12))
qed

theorem negative_tick_after_reset_witness:
  "Math_round (of_int (ivThen \<lparr>ivThen = 5000, ivDelay = 1000\<rparr> - clock (demoWon\<lparr>clock := 6000\<rparr>)) / 1000) = - 1 \<and>
   (\<exists>s1. resetGame (clearInterval (restartID (demoWon\<lparr>clock := 6000\<rparr>)) (demoWon\<lparr>clock := 6000\<rparr>)) = Some s1 \<and>
      intervalCallback \<lparr>ivThen = 5000, ivDelay = 1000\<rparr> (demoWon\<lparr>clock := 6000\<rparr>)
        = Some (displayTimeLeft (- 1) False s1) \<and>
      currentScore s1 = Num 0 \<and>
      elTimerTimeLeft (displayTimeLeft (- 1) False s1) = ''-1'')"
proof -
  let ?s = "demoWon\<lparr>clock := 6000\<rparr>"
  let ?iv = "\<lparr>ivThen = 5000, ivDelay = 1000\<rparr>"
  have h1: "Math_round (of_int (ivThen ?iv - clock ?s) / 1000) = - 1"
    by (simp only: Math_round_ms) simp
  have h2: "(- 1 :: int) < 0" by simp
  have r: "randoms (clearInterval (restartID ?s) ?s) = drop 5 demoRandoms"
    by (simp add: clearInterval_def demoWon_eq) (simp add: demoGame_def)
  from demo_resetGame_two[OF r] obtain s1 where
    h3: "resetGame (clearInterval (restartID ?s) ?s) = Some s1"
    by blast
  from negative_tick_after_reset[OF h1 h2 h3]
  have c1: "intervalCallback ?iv ?s = Some (displayTimeLeft (- 1) False s1)"
    and c2: "currentScore s1 = Num 0"
    and c3: "elTimerTimeLeft (displayTimeLeft (- 1) False s1) = toString (js_rem (- 1) 60)"
    by blast+
  have t: "toString (js_rem (- 1) 60) = ''-1''"
    by (simp add: js_rem_def toString_def digits10.simps digitChar_def)
  have c4: "elTimerTimeLeft (displayTimeLeft (- 1) False s1) = ''-1''"
    using c3 t by (rule trans)
  show ?thesis
    by (intro conjI exI[of _ s1]) (fact h1, fact h3, fact c1, fact c2, fact c4)
qed

lemma run_append:
  "run (xs @ ys) s = (case run xs s of None \<Rightarrow> None | Some s' \<Rightarrow> run ys s')"
  by (induction xs arbitrary: s) (auto split: option.splits)

lemma seconds_Suc: "seconds i (Suc k) = seconds i k @ [Elapse 1000, Fire i]"
proof -
  have "replicate (Suc k) [Elapse 1000, Fire i] = replicate k [Elapse 1000, Fire i] @ [[Elapse 1000, Fire i]]"
    by (simp add: replicate_append_same)
  then show ?thesis
    unfolding seconds_def by (simp only: concat_append) simp
qed

lemma seconds_add: "seconds i (a + b) = seconds i a @ seconds i b"
  by (simp add: seconds_def replicate_add)

lemma run_tick: "run [Elapse ms, Fire i] s = fireInterval i (s\<lparr>clock := clock s + int ms\<rparr>)"
  by (simp split: option.splits)

lemma oneTimer_filter: "oneTimer s \<Longrightarrow> filter (\<lambda>t. fst t \<noteq> restartID s) (timers s) = []"
  by (auto simp: oneTimer_def list_all_iff filter_empty_conv)

lemma timers_restartGame:
  "oneTimer s \<Longrightarrow>
   timers (restartGame n s) = [(nextTimerID s, \<lparr>ivThen = clock s + n * 1000, ivDelay = 1000\<rparr>)]"
  by (simp add: restartGame_eq oneTimer_filter)

lemma tick_div: "(4500 - 1000 * int k) div 1000 = 4 - int k"
  by linarith

text \<open>The seconds of a countdown that has not run out: each tick only moves the clock
  and the time left.\<close>

lemma countdown_ticks:
  assumes "timers s0 = [(i, \<lparr>ivThen = clock s0 + 5000, ivDelay = 1000\<rparr>)]"
    and "elTimerTimeLeft s0 = toString 5"
  shows "k \<le> 5 \<Longrightarrow>
    run (seconds i k) s0 =
      Some (s0\<lparr>clock := clock s0 + 1000 * int k, elTimerTimeLeft := toString (5 - int k)\<rparr>)"
proof (induction k)
  case 0
  show ?case using assms(2) by (simp add: seconds_def)
next
  case (Suc k)
  let ?sk = "s0\<lparr>clock := clock s0 + 1000 * int k, elTimerTimeLeft := toString (5 - int k)\<rparr>"
  let ?iv = "\<lparr>ivThen = clock s0 + 5000, ivDelay = 1000\<rparr>"
  let ?se = "?sk\<lparr>clock := clock ?sk + int 1000\<rparr>"
  have k: "k \<le> 4" using Suc.prems by simp
  have ih: "run (seconds i k) s0 = Some ?sk"
    using Suc.IH k by simp
  have n: "Math_round (of_int (ivThen ?iv - clock ?se) / 1000) = 4 - int k"
    by (simp only: Math_round_ms) (simp add: tick_div)
  have cb: "intervalCallback ?iv ?se = Some (displayTimeLeft (4 - int k) False ?se)"
    using intervalCallback_continue[of ?iv ?se] k unfolding n by simp
  have fire: "fireInterval i ?se = Some (displayTimeLeft (4 - int k) False ?se)"
    using cb by (simp add: fireInterval_def assms(1))
  have rem: "js_rem (4 - int k) 60 = 4 - int k"
    using k by (intro js_rem_small) simp_all
  have "run [Elapse 1000, Fire i] ?sk = Some (displayTimeLeft (4 - int k) False ?se)"
    using fire by simp
  also have "displayTimeLeft (4 - int k) False ?se =
      s0\<lparr>clock := clock s0 + 1000 * int (Suc k), elTimerTimeLeft := toString (5 - int (Suc k))\<rparr>"
    by (simp add: displayTimeLeft_def Let_def rem)
  finally show ?case
    by (simp add: seconds_Suc run_append ih del: run.simps)
qed

text \<open>The tick on which the countdown runs out.\<close>

lemma countdown_last_tick:
  assumes "timers s5 = [(i, \<lparr>ivThen = c + 5000, ivDelay = 1000\<rparr>)]" and "clock s5 = c + 5000"
    and "restartID s5 = i"
  shows "run [Elapse 1000, Fire i] s5 =
     map_option (displayTimeLeft (- 1) False)
       (resetGame (clearInterval i (s5\<lparr>clock := c + 6000\<rparr>)))"
proof -
  let ?iv = "\<lparr>ivThen = c + 5000, ivDelay = 1000\<rparr>"
  let ?se = "s5\<lparr>clock := clock s5 + int 1000\<rparr>"
  have se: "?se = s5\<lparr>clock := c + 6000\<rparr>"
    using assms(2) by simp
  have n: "Math_round (of_int (ivThen ?iv - clock ?se) / 1000) = - 1"
    by (simp only: Math_round_ms) (simp add: assms(2))
  have "intervalCallback ?iv ?se =
      map_option (displayTimeLeft (- 1) False) (resetGame (clearInterval (restartID ?se) ?se))"
    using intervalCallback_reset[of ?iv ?se] unfolding n by simp
  then have "fireInterval i ?se =
      map_option (displayTimeLeft (- 1) False) (resetGame (clearInterval i ?se))"
    by (simp add: fireInterval_def assms(1,3))
  then show ?thesis
    unfolding run_tick se .
qed

text \<open>With no interval active, seconds only move the clock.\<close>

lemma seconds_idle:
  "timers s = [] \<Longrightarrow> run (seconds i m) s = Some (s\<lparr>clock := clock s + 1000 * int m\<rparr>)"
proof (induction m)
  case 0
  show ?case by (simp add: seconds_def)
next
  case (Suc m)
  let ?sm = "s\<lparr>clock := clock s + 1000 * int m\<rparr>"
  have "run [Elapse 1000, Fire i] ?sm = Some (s\<lparr>clock := clock s + 1000 * int (Suc m)\<rparr>)"
    using Suc.prems by (simp add: fireInterval_def)
  then show ?case
    using Suc by (simp add: seconds_Suc run_append del: run.simps)
qed

text \<open>
  C7. The countdown that \<^verbatim>\<open>restartGame(this.restartSeconds)\<close> begins runs from 5
  (\<^verbatim>\<open>restartSeconds\<close> is 5): the time left reads 5 at once, and with the interval firing
  once every 1000 ms it reads \<open>5 - k\<close> after \<open>k\<close> seconds, for each \<open>k\<close> up to 5, nothing
  else but the clock changing. On the sixth tick the seconds left are \<open>-1\<close>, below zero:
  the interval is cleared and \<^verbatim>\<open>resetGame\<close> starts the next round, \<open>s1\<close>. No interval is
  active afterwards, and however many seconds \<open>m\<close> follow, nothing but the clock changes:
  the round is started once.
\<close>

theorem countdown_five_seconds:
  assumes "oneTimer s" and "k \<le> 5"
    and "resetGame (clearInterval (nextTimerID s)
           ((restartGame restartSeconds s)\<lparr>clock := clock s + 6000, elTimerTimeLeft := toString 0\<rparr>))
         = Some s1"
  shows "restartSeconds = 5 \<and>
    elTimerTimeLeft (restartGame restartSeconds s) = toString 5 \<and>
    run (seconds (nextTimerID s) k) (restartGame restartSeconds s) =
      Some ((restartGame restartSeconds s)
              \<lparr>clock := clock s + 1000 * int k, elTimerTimeLeft := toString (5 - int k)\<rparr>) \<and>
    run (seconds (nextTimerID s) 6) (restartGame restartSeconds s) =
      Some (displayTimeLeft (- 1) False s1) \<and>
    timers (displayTimeLeft (- 1) False s1) = [] \<and>
    run (seconds (nextTimerID s) (6 + m)) (restartGame restartSeconds s) =
      Some ((displayTimeLeft (- 1) False s1)\<lparr>clock := clock s + 6000 + 1000 * int m\<rparr>)"
proof -
  let ?i = "nextTimerID s"
  let ?s0 = "restartGame restartSeconds s"
  have c0: "clock ?s0 = clock s" and r0: "restartID ?s0 = ?i"
    by (simp_all add: restartGame_eq)
  have t0: "timers ?s0 = [(?i, \<lparr>ivThen = clock ?s0 + 5000, ivDelay = 1000\<rparr>)]"
    unfolding c0 using timers_restartGame[OF assms(1), of restartSeconds]
    by (simp add: restartSeconds_def)
  have l0: "elTimerTimeLeft ?s0 = toString 5"
    by (simp add: restartGame_eq restartSeconds_def js_rem_def)
  have ticks: "\<And>j. j \<le> 5 \<Longrightarrow> run (seconds ?i j) ?s0 =
      Some (?s0\<lparr>clock := clock s + 1000 * int j, elTimerTimeLeft := toString (5 - int j)\<rparr>)"
    using countdown_ticks[OF t0 l0] unfolding c0 .
  let ?s5 = "?s0\<lparr>clock := clock s + 5000, elTimerTimeLeft := toString 0\<rparr>"
  have five: "run (seconds ?i 5) ?s0 = Some ?s5"
    using ticks[of 5] by simp
  have s56: "?s5\<lparr>clock := clock s + 6000\<rparr> =
             ?s0\<lparr>clock := clock s + 6000, elTimerTimeLeft := toString 0\<rparr>"
    by (cases ?s0) simp
  have "run [Elapse 1000, Fire ?i] ?s5 =
      map_option (displayTimeLeft (- 1) False)
        (resetGame (clearInterval ?i (?s5\<lparr>clock := clock s + 6000\<rparr>)))"
    by (rule countdown_last_tick) (simp_all add: t0[unfolded c0] r0)
  then have last: "run [Elapse 1000, Fire ?i] ?s5 = Some (displayTimeLeft (- 1) False s1)"
    unfolding s56 assms(3) by simp
  have "seconds ?i 6 = seconds ?i 5 @ [Elapse 1000, Fire ?i]"
    using seconds_Suc[of ?i 5] by simp
  then have six: "run (seconds ?i 6) ?s0 = Some (displayTimeLeft (- 1) False s1)"
    by (simp add: run_append five last del: run.simps)
  have "timers s1 = timers (clearInterval ?i
           (?s0\<lparr>clock := clock s + 6000, elTimerTimeLeft := toString 0\<rparr>))"
    by (rule resetGame_frame(10)[OF assms(3)])
  also have "\<dots> = []"
    by (simp add: clearInterval_def t0)
  finally have none: "timers (displayTimeLeft (- 1) False s1) = []"
    by (simp add: displayTimeLeft_frame)
  have "clock s1 = clock s + 6000"
    using resetGame_frame(9)[OF assms(3)] by (simp add: clearInterval_def)
  then have c6: "clock (displayTimeLeft (- 1) False s1) = clock s + 6000"
    by (simp add: displayTimeLeft_frame)
  have after: "run (seconds ?i (6 + m)) ?s0 =
      Some ((displayTimeLeft (- 1) False s1)\<lparr>clock := clock s + 6000 + 1000 * int m\<rparr>)"
    using seconds_idle[OF none, of ?i m]
    by (simp add: seconds_add run_append six c6 del: run.simps)
  show ?thesis
    using l0 ticks[OF assms(2)] six none after
    by (simp add: restartSeconds_def)
qed

theorem countdown_five_seconds_witness:
  "oneTimer demoGame \<and>
   (\<exists>s1. resetGame (clearInterval (nextTimerID demoGame)
           ((restartGame restartSeconds demoGame)
              \<lparr>clock := clock demoGame + 6000, elTimerTimeLeft := toString 0\<rparr>)) = Some s1 \<and>
      run (seconds (nextTimerID demoGame) 3) (restartGame restartSeconds demoGame) =
        Some ((restartGame restartSeconds demoGame)
                \<lparr>clock := clock demoGame + 1000 * int 3, elTimerTimeLeft := toString (5 - int 3)\<rparr>) \<and>
      run (seconds (nextTimerID demoGame) 6) (restartGame restartSeconds demoGame) =
        Some (displayTimeLeft (- 1) False s1))"
proof -
  have h1: "oneTimer demoGame"
    by (simp add: oneTimer_def demoGame_def)
  have h2: "(3::nat) \<le> 5" by simp
  have r: "randoms (clearInterval (nextTimerID demoGame)
           ((restartGame restartSeconds demoGame)
              \<lparr>clock := clock demoGame + 6000, elTimerTimeLeft := toString 0\<rparr>)) = drop 5 demoRandoms"
    by (simp add: clearInterval_def restartGame_eq) (simp add: demoGame_def)
  from demo_resetGame_two[OF r] obtain s1 where
    h3: "resetGame (clearInterval (nextTimerID demoGame)
           ((restartGame restartSeconds demoGame)
              \<lparr>clock := clock demoGame + 6000, elTimerTimeLeft := toString 0\<rparr>)) = Some s1"
    by blast
  from countdown_five_seconds[OF h1 h2 h3]
  have c1: "run (seconds (nextTimerID demoGame) 3) (restartGame restartSeconds demoGame) =
        Some ((restartGame restartSeconds demoGame)
                \<lparr>clock := clock demoGame + 1000 * int 3, elTimerTimeLeft := toString (5 - int 3)\<rparr>)"
    and c2: "run (seconds (nextTimerID demoGame) 6) (restartGame restartSeconds demoGame) =
        Some (displayTimeLeft (- 1) False s1)"
    by blast+
  show ?thesis
    by (intro conjI exI[of _ s1]) (fact h1, fact h3, fact c1, fact c2)
qed

subsection \<open>One timer at a time\<close>

lemma oneTimer_restartGame: "oneTimer s \<Longrightarrow> oneTimer (restartGame n s)"
  by (simp add: oneTimer_def timers_restartGame[unfolded oneTimer_def]) (simp add: restartGame_eq)

lemma oneTimer_playerClick:
  assumes "oneTimer s"
  shows "oneTimer (playerClick el s)"
proof -
  have a: "oneTimer (restartGame restartSeconds s0)"
    if "timers s0 = timers s" "restartID s0 = restartID s" for s0
    using assms that by (intro oneTimer_restartGame) (simp add: oneTimer_def)
  have b: "oneTimer (s\<lparr>currentScore := x, elTotalScore := y\<rparr>)" for x y
    using assms by (simp add: oneTimer_def)
  show ?thesis
    unfolding playerClick_def Let_def by (simp add: a b)
qed

lemma oneTimer_clicks: "oneTimer s \<Longrightarrow> oneTimer ((playerClick el ^^ n) s)"
  by (induction n) (simp_all add: oneTimer_playerClick)

lemma oneTimer_fire:
  assumes "oneTimer s" and "fireInterval i s = Some s'"
  shows "oneTimer s'"
proof (cases "map_of (timers s) i")
  case None
  with assms show ?thesis by (simp add: fireInterval_def)
next
  case (Some iv)
  let ?n = "Math_round (of_int (ivThen iv - clock s) / 1000)"
  have cb: "intervalCallback iv s = Some s'"
    using assms(2) Some by (simp add: fireInterval_def)
  show ?thesis
  proof (cases "?n < 0")
    case False
    then have "s' = displayTimeLeft ?n False s"
      using cb intervalCallback_continue[of iv s] by simp
    with assms(1) show ?thesis
      by (simp add: oneTimer_def displayTimeLeft_frame)
  next
    case True
    then obtain s1 where r: "resetGame (clearInterval (restartID s) s) = Some s1"
      and s': "s' = displayTimeLeft ?n False s1"
      using cb intervalCallback_reset[of iv s] by auto
    have "timers s1 = filter (\<lambda>t. fst t \<noteq> restartID s) (timers s)"
      using resetGame_frame(10)[OF r] by (simp add: clearInterval_def)
    then have "timers s1 = []"
      using oneTimer_filter[OF assms(1)] by simp
    then show ?thesis
      unfolding s' by (simp add: oneTimer_def displayTimeLeft_frame)
  qed
qed

lemma oneTimer_step: "oneTimer s \<Longrightarrow> step e s = Some s' \<Longrightarrow> oneTimer s'"
proof (cases e)
  case (Click el)
  assume "oneTimer s" "step e s = Some s'"
  with Click show ?thesis
    by (auto simp: oneTimer_clicks split: if_splits)
next
  case (Elapse ms)
  assume "oneTimer s" "step e s = Some s'"
  with Elapse show ?thesis by (auto simp: oneTimer_def)
next
  case (Fire i)
  assume "oneTimer s" "step e s = Some s'"
  with Fire show ?thesis by (auto intro: oneTimer_fire)
qed

lemma oneTimer_run: "oneTimer s \<Longrightarrow> run es s = Some s' \<Longrightarrow> oneTimer s'"
proof (induction es arbitrary: s)
  case Nil
  then show ?case by simp
next
  case (Cons e es)
  from Cons.prems(2) obtain s1 where s1: "step e s = Some s1" "run es s1 = Some s'"
    by (auto split: option.splits)
  from oneTimer_step[OF Cons.prems(1) s1(1)] Cons.IH s1(2) show ?case by blast
qed

lemma oneTimer_pageLoad: "pageLoad rs t = Some s0 \<Longrightarrow> oneTimer s0"
  using start_frame(10)[of True "initialGame rs t" s0]
  by (simp add: pageLoad_def oneTimer_def initialGame_def)

subsection \<open>The tallies\<close>






lemma demo_fire:
  "fireInterval 1 (demoWon\<lparr>clock := 6000\<rparr>) =
     Some (displayTimeLeft (- 1) False
       (demoWon\<lparr>clock := 6000, timers := [],
          elGemDisplay := map2 gemButton gems [1, 2, 3, 4], uniqueGemValues := [],
          targetNumber := 70, currentScore := Num 0, elTimerMessage := [],
          elTimerOverlayDisplay := ''none'', elTimerTimeLeft := [],
          elTimerMessageClass := [],
          elGamesWon := toString 1, elGamesLost := toString 0,
          elTotalScore := toString 0, elTargetNumber := toString 70,
          randoms := drop 11 demoRandoms\<rparr>))"
proof -
  let ?s = "demoWon\<lparr>clock := 6000\<rparr>"
  let ?iv = "\<lparr>ivThen = 5000, ivDelay = 1000\<rparr>"
  have m: "map_of (timers ?s) 1 = Some ?iv"
    by (simp add: demoWon_eq)
  have n: "Math_round (of_int (ivThen ?iv - clock ?s) / 1000) = - 1"
    by (simp only: Math_round_ms) simp
  have r: "randoms (clearInterval (restartID ?s) ?s) = drop 5 demoRandoms"
    by (simp add: clearInterval_def demoWon_eq) (simp add: demoGame_def)
  have "intervalCallback ?iv ?s =
      map_option (displayTimeLeft (- 1) False) (resetGame (clearInterval (restartID ?s) ?s))"
    using intervalCallback_reset[of ?iv ?s] unfolding n by simp
  then show ?thesis
    unfolding fireInterval_def m demo_resetGame_two[OF r]
    by (simp add: clearInterval_def demoWon_eq) (simp add: demoGame_def)
qed







subsection \<open>Clicks off the gems of the round\<close>






lemma playerClick_frame:
  "currentScore (playerClick el s) = js_add (currentScore s) (parseInt (dataGemValue el))"
  "elGemDisplay (playerClick el s) = elGemDisplay s"
  "targetNumber (playerClick el s) = targetNumber s"
  "randoms (playerClick el s) = randoms s"
  by (simp_all add: playerClick_def Let_def restartGame_eq)

lemma playerClicks_frame:
  "elGemDisplay ((playerClick el ^^ n) s) = elGemDisplay s \<and>
   targetNumber ((playerClick el ^^ n) s) = targetNumber s \<and>
   randoms ((playerClick el ^^ n) s) = randoms s"
  by (induction n) (simp_all add: playerClick_frame)






subsection \<open>Rounds and their timer\<close>

lemma oneTimer_lookup:
  "oneTimer s \<Longrightarrow> map_of (timers s) i = Some iv \<Longrightarrow> i = restartID s \<and> timers s = [(i, iv)]"
  by (cases "timers s") (auto simp: oneTimer_def split: if_splits)

lemma countdown_playerClick:
  assumes "(timers s = []) = (outcome s = InProgress)"
  shows "(timers (playerClick el s) = []) = (outcome (playerClick el s) = InProgress)"
  using assms
  by (simp add: playerClick_def Let_def restartGame_eq outcome_def set_addClass)

lemma countdown_clicks:
  "(timers s = []) = (outcome s = InProgress) \<Longrightarrow>
   (timers ((playerClick el ^^ n) s) = []) = (outcome ((playerClick el ^^ n) s) = InProgress)"
  by (induction n) (simp_all add: countdown_playerClick)

lemma countdown_step:
  assumes "oneTimer s" and "(timers s = []) = (outcome s = InProgress)" and "step e s = Some s'"
  shows "(timers s' = []) = (outcome s' = InProgress)"
proof (cases e)
  case (Click el)
  show ?thesis
  proof (cases "el \<in> set (elGemDisplay s)")
    case True
    then have "s' = (playerClick el ^^ clickHandlers s) s"
      using assms(3) Click by simp
    then show ?thesis
      using countdown_clicks[OF assms(2)] by simp
  next
    case False
    then have "s' = s"
      using assms(3) Click by simp
    with assms(2) show ?thesis by simp
  qed
next
  case (Elapse ms)
  then have "s' = s\<lparr>clock := clock s + int ms\<rparr>"
    using assms(3) by simp
  then show ?thesis
    using assms(2) by (simp add: outcome_def)
next
  case (Fire i)
  then have f: "fireInterval i s = Some s'"
    using assms(3) by simp
  show ?thesis
  proof (cases "map_of (timers s) i")
    case None
    with f have "s' = s" by (simp add: fireInterval_def)
    with assms(2) show ?thesis by simp
  next
    case (Some iv)
    let ?n = "Math_round (of_int (ivThen iv - clock s) / 1000)"
    have cb: "intervalCallback iv s = Some s'"
      using f Some by (simp add: fireInterval_def)
    show ?thesis
    proof (cases "?n < 0")
      case False
      then have "s' = displayTimeLeft ?n False s"
        using cb intervalCallback_continue[of iv s] by simp
      then show ?thesis
        using assms(2) by (simp add: displayTimeLeft_frame)
    next
      case True
      then obtain s1 where r: "resetGame (clearInterval (restartID s) s) = Some s1"
        and s': "s' = displayTimeLeft ?n False s1"
        using cb intervalCallback_reset[of iv s] by auto
      have "timers s1 = filter (\<lambda>t. fst t \<noteq> restartID s) (timers s)"
        using resetGame_frame(10)[OF r] by (simp add: clearInterval_def)
      then have "timers s1 = []"
        using oneTimer_filter[OF assms(1)] by simp
      then show ?thesis
        unfolding s' using resetGame_frame(6)[OF r] by (simp add: displayTimeLeft_frame)
    qed
  qed
qed

lemma countdown_run:
  "oneTimer s \<Longrightarrow> (timers s = []) = (outcome s = InProgress) \<Longrightarrow> run es s = Some s' \<Longrightarrow>
   (timers s' = []) = (outcome s' = InProgress)"
proof (induction es arbitrary: s)
  case Nil
  then show ?case by simp
next
  case (Cons e es)
  from Cons.prems(3) obtain s1 where s1: "step e s = Some s1" "run es s1 = Some s'"
    by (auto split: option.splits)
  from Cons.IH[OF oneTimer_step[OF Cons.prems(1) s1(1)] countdown_step[OF Cons.prems(1,2) s1(1)] s1(2)]
  show ?case .
qed

lemma countdown_pageLoad:
  assumes "pageLoad rs t = Some s0"
  shows "(timers s0 = []) = (outcome s0 = InProgress)"
  using start_frame(6,10)[OF assms[unfolded pageLoad_def]]
  by (simp add: outcome_def initialGame_def)

text \<open>A step either starts no round or is the callback of the one interval, which clears
  the interval and then starts the round.\<close>

lemma round_start_step:
  assumes "oneTimer s" and "(timers s = []) = (outcome s = InProgress)" and "step e s = Some s'"
  shows "(elGemDisplay s' = elGemDisplay s \<and> targetNumber s' = targetNumber s \<and>
          randoms s' = randoms s) \<or>
         (\<exists>iv s1. e = Fire (restartID s) \<and> timers s = [(restartID s, iv)] \<and>
            outcome s \<noteq> InProgress \<and>
            Math_round (of_int (ivThen iv - clock s) / 1000) < 0 \<and>
            resetGame (clearInterval (restartID s) s) = Some s1 \<and> timers s1 = [] \<and>
            s' = displayTimeLeft (Math_round (of_int (ivThen iv - clock s) / 1000)) False s1 \<and>
            timers s' = [] \<and> outcome s' = InProgress)"
proof (cases e)
  case (Click el)
  then have "s' = (playerClick el ^^ clickHandlers s) s \<or> s' = s"
    using assms(3) by (auto split: if_splits)
  then show ?thesis
    using playerClicks_frame[where el = el and n = "clickHandlers s" and s = s] by auto
next
  case (Elapse ms)
  then have "s' = s\<lparr>clock := clock s + int ms\<rparr>"
    using assms(3) by simp
  then show ?thesis by simp
next
  case (Fire i)
  then have f: "fireInterval i s = Some s'"
    using assms(3) by simp
  show ?thesis
  proof (cases "map_of (timers s) i")
    case None
    with f have "s' = s" by (simp add: fireInterval_def)
    then show ?thesis by simp
  next
    case (Some iv)
    let ?n = "Math_round (of_int (ivThen iv - clock s) / 1000)"
    have cb: "intervalCallback iv s = Some s'"
      using f Some by (simp add: fireInterval_def)
    note lk = oneTimer_lookup[OF assms(1) Some]
    show ?thesis
    proof (cases "?n < 0")
      case False
      then have "s' = displayTimeLeft ?n False s"
        using cb intervalCallback_continue[of iv s] by simp
      then have "elGemDisplay s' = elGemDisplay s \<and> targetNumber s' = targetNumber s \<and>
          randoms s' = randoms s"
        by (simp add: displayTimeLeft_def Let_def)
      then show ?thesis ..
    next
      case True
      then obtain s1 where r: "resetGame (clearInterval (restartID s) s) = Some s1"
        and s': "s' = displayTimeLeft ?n False s1"
        using cb intervalCallback_reset[of iv s] by auto
      have "timers s1 = filter (\<lambda>t. fst t \<noteq> restartID s) (timers s)"
        using resetGame_frame(10)[OF r] by (simp add: clearInterval_def)
      then have t1: "timers s1 = []"
        using oneTimer_filter[OF assms(1)] by simp
      have t': "timers s' = []" "outcome s' = InProgress"
        unfolding s' using t1 resetGame_frame(6)[OF r] by (simp_all add: displayTimeLeft_frame)
      have e: "e = Fire (restartID s)" and ts: "timers s = [(restartID s, iv)]"
        using Fire lk by simp_all
      have o: "outcome s \<noteq> InProgress"
        using assms(2) ts by simp
      have "\<exists>iv s1. e = Fire (restartID s) \<and> timers s = [(restartID s, iv)] \<and>
            outcome s \<noteq> InProgress \<and>
            Math_round (of_int (ivThen iv - clock s) / 1000) < 0 \<and>
            resetGame (clearInterval (restartID s) s) = Some s1 \<and> timers s1 = [] \<and>
            s' = displayTimeLeft (Math_round (of_int (ivThen iv - clock s) / 1000)) False s1 \<and>
            timers s' = [] \<and> outcome s' = InProgress"
        using e ts o True r t1 s' t' by blast
      then show ?thesis ..
    qed
  qed
qed

text \<open>
  C3. In every state the page reaches after loading, whatever is clicked, however much
  time passes and whenever intervals fire:
  \<^item> at most one interval is active, and it is the one \<^verbatim>\<open>this.restartID\<close> names;
  \<^item> an interval is active exactly while the outcome of the round is Won or Lost;
  \<^item> \<^verbatim>\<open>restartGame\<close>, the one place that schedules an interval, first clears the
    interval \<^verbatim>\<open>this.restartID\<close> names: after it exactly the new interval is active;
  \<^item> nothing but the callback of the active interval starts a round: every event either
    leaves the gems, the target and the coming random results as they are, or it is the
    firing of the one active interval with its time run out, which clears that interval
    and then calls \<^verbatim>\<open>resetGame\<close>; no interval is active in the round so started, so no
    second restart follows.
\<close>

theorem one_countdown_timer:
  assumes "pageLoad rs t = Some s0" and "run es s0 = Some s"
  shows "oneTimer s \<and> (timers s = []) = (outcome s = InProgress) \<and>
         timers (restartGame n s) = [(nextTimerID s, \<lparr>ivThen = clock s + n * 1000, ivDelay = 1000\<rparr>)] \<and>
         (\<forall>e s'. step e s = Some s' \<longrightarrow>
            (elGemDisplay s' = elGemDisplay s \<and> targetNumber s' = targetNumber s \<and>
             randoms s' = randoms s) \<or>
            (\<exists>iv s1. e = Fire (restartID s) \<and> timers s = [(restartID s, iv)] \<and>
               outcome s \<noteq> InProgress \<and>
               Math_round (of_int (ivThen iv - clock s) / 1000) < 0 \<and>
               resetGame (clearInterval (restartID s) s) = Some s1 \<and> timers s1 = [] \<and>
               s' = displayTimeLeft (Math_round (of_int (ivThen iv - clock s) / 1000)) False s1 \<and>
               timers s' = [] \<and> outcome s' = InProgress))"
proof -
  have inv: "oneTimer s"
    using oneTimer_run[OF oneTimer_pageLoad[OF assms(1)] assms(2)] .
  have cd: "(timers s = []) = (outcome s = InProgress)"
    using countdown_run[OF oneTimer_pageLoad[OF assms(1)] countdown_pageLoad[OF assms(1)] assms(2)] .
  show ?thesis
    using inv cd timers_restartGame[OF inv, of n] round_start_step[OF inv cd] by blast
qed

theorem one_countdown_timer_witness:
  "pageLoad demoRandoms 0 = Some demoGame \<and>
   run [Click (gemButton ''emerald'' 12), Click (gemButton ''ruby'' 7), Elapse 6000] demoGame
     = Some (demoWon\<lparr>clock := 6000\<rparr>) \<and>
   oneTimer (demoWon\<lparr>clock := 6000\<rparr>) \<and>
   timers (demoWon\<lparr>clock := 6000\<rparr>) = [(1, \<lparr>ivThen = 5000, ivDelay = 1000\<rparr>)] \<and>
   outcome (demoWon\<lparr>clock := 6000\<rparr>) = Won \<and>
   timers (restartGame 5 (demoWon\<lparr>clock := 6000\<rparr>)) = [(2, \<lparr>ivThen = 11000, ivDelay = 1000\<rparr>)] \<and>
   (\<exists>s'. step (Fire 1) (demoWon\<lparr>clock := 6000\<rparr>) = Some s' \<and> targetNumber s' = 70 \<and>
      timers s' = [] \<and> outcome s' = InProgress)"
proof -
  let ?s = "demoWon\<lparr>clock := 6000\<rparr>"
  let ?g4 = "displayTimeLeft (- 1) False
       (demoWon\<lparr>clock := 6000, timers := [],
          elGemDisplay := map2 gemButton gems [1, 2, 3, 4], uniqueGemValues := [],
          targetNumber := 70, currentScore := Num 0, elTimerMessage := [],
          elTimerOverlayDisplay := ''none'', elTimerTimeLeft := [],
          elTimerMessageClass := [],
          elGamesWon := toString 1, elGamesLost := toString 0,
          elTotalScore := toString 0, elTargetNumber := toString 70,
          randoms := drop 11 demoRandoms\<rparr>)"
  have h2: "run [Click (gemButton ''emerald'' 12), Click (gemButton ''ruby'' 7), Elapse 6000] demoGame
     = Some ?s"
    by (simp add: demoWon_eq) (simp add: demo_click_defs toString_5[unfolded restartSeconds_def])
  have st: "step (Fire 1) ?s = Some ?g4"
    unfolding step.simps by (rule demo_fire)
  have ts: "timers ?s = [(1, \<lparr>ivThen = 5000, ivDelay = 1000\<rparr>)]"
    by (simp add: demoWon_eq)
  have oc: "outcome ?s = Won"
    by (simp add: outcome_def demoWon_eq)
  have tg: "targetNumber ?g4 = 70"
    by (simp add: displayTimeLeft_def Let_def)
  have ne: "targetNumber ?g4 \<noteq> targetNumber ?s"
    unfolding tg by (simp add: demoWon_eq) (simp add: demoGame_def)
  note t = one_countdown_timer[OF demo_pageLoad h2, of 5]
  from t have o: "oneTimer ?s" by blast
  from t have "timers (restartGame 5 ?s)
      = [(nextTimerID ?s, \<lparr>ivThen = clock ?s + 5 * 1000, ivDelay = 1000\<rparr>)]"
    by blast
  then have r: "timers (restartGame 5 ?s) = [(2, \<lparr>ivThen = 11000, ivDelay = 1000\<rparr>)]"
    by (simp add: demoWon_eq)
  from t st have "(elGemDisplay ?g4 = elGemDisplay ?s \<and> targetNumber ?g4 = targetNumber ?s \<and>
             randoms ?g4 = randoms ?s) \<or> (timers ?g4 = [] \<and> outcome ?g4 = InProgress)"
    by blast
  with ne have f: "timers ?g4 = []" "outcome ?g4 = InProgress"
    by blast+
  have ex: "\<exists>s'. step (Fire 1) ?s = Some s' \<and> targetNumber s' = 70 \<and>
      timers s' = [] \<and> outcome s' = InProgress"
    by (intro exI[of _ ?g4] conjI) (fact st, fact tg, fact f(1), fact f(2))
  show ?thesis
    by (intro conjI) (fact demo_pageLoad, fact h2, fact o, fact ts, fact oc, fact r, fact ex)
qed

end
